theory Spec2Isabelle
  imports Complex_Main
begin

section \<open>Common ground: errors, strings, manifest files\<close>

text \<open>
  The exceptions that the modelled functions of \<^verbatim>\<open>tools/batools/pcommand2.py\<close> can
  raise. None of the functions catches anything, so an exception always ends the
  operation; the models return it as a value together with the state reached.
\<close>

datatype error =
    CleanError string
  | FileNotFoundError
  | JSONDecodeError
  | TypeError
  | PermissionError
  | CalledProcessError
  | FetchError string

text \<open>\<^verbatim>\<open>s.startswith(p)\<close> and \<^verbatim>\<open>p in s\<close> on Python strings.\<close>

definition startswith :: "string \<Rightarrow> string \<Rightarrow> bool" where
  "startswith s p = (take (length p) s = p)"

fun str_contains :: "string \<Rightarrow> string \<Rightarrow> bool" where
  "str_contains [] p = (p = [])"
| "str_contains (c # cs) p = (startswith (c # cs) p \<or> str_contains cs p)"

text \<open>
  What \<^verbatim>\<open>open(path).read()\<close> followed by \<^verbatim>\<open>json.loads\<close> meets: the file may be
  missing (\<^verbatim>\<open>open\<close> raises), its text may not be JSON (\<^verbatim>\<open>json.loads\<close> raises), or
  it decodes to a value.
\<close>

datatype 'a json_file = Missing | Malformed | Content 'a

definition load_json :: "'a json_file \<Rightarrow> error + 'a" where
  "load_json f = (case f of
       Missing \<Rightarrow> Inl FileNotFoundError
     | Malformed \<Rightarrow> Inl JSONDecodeError
     | Content v \<Rightarrow> Inr v)"

section \<open>Prerequisite resolution: \<^verbatim>\<open>win_ci_install_prereqs\<close>\<close>

text \<open>
  A Python \<^verbatim>\<open>set[str]\<close> that is later iterated is kept as a duplicate-free list;
  \<^verbatim>\<open>add\<close> leaves the list alone when the element is already there.
\<close>

definition set_add :: "string \<Rightarrow> string list \<Rightarrow> string list" where
  "set_add x xs = (if x \<in> set xs then xs else xs @ [x])"



text \<open>The condition of the \<^verbatim>\<open>if\<close> at source lines 195 to 198.\<close>

definition is_needed :: "string \<Rightarrow> bool" where
  "is_needed target =
     ((startswith target ''src/ballistica/'' \<and> str_contains target ''/mgen/'')
      \<or> (startswith target ''src/assets/ba_data/python/''
          \<and> str_contains target ''/_mgen/''))"

text \<open>
  The loop at source lines 194 to 199, over \<^verbatim>\<open>meta_public + meta_private\<close>, with the
  set it grows as accumulator.
\<close>

fun add_meta_targets :: "string list \<Rightarrow> string list \<Rightarrow> string list" where
  "add_meta_targets needed_targets [] = needed_targets"
| "add_meta_targets needed_targets (target # rest) =
     add_meta_targets
       (if is_needed target then set_add target needed_targets else needed_targets)
       rest"




section \<open>Incremental staging: \<^verbatim>\<open>update_cmake_prefab_lib\<close>\<close>

text \<open>
  The part of the file system the function looks at: a path names a regular file
  (content and modification time), a directory (modification time) or nothing.
  \<^verbatim>\<open>os.path.getmtime\<close> returns seconds as a float; the finite floats are ordered as
  the real numbers are.
\<close>

datatype entry = RegFile string real | Directory real

type_synonym fsys = "string \<Rightarrow> entry option"

definition os_path_exists :: "fsys \<Rightarrow> string \<Rightarrow> bool" where
  "os_path_exists fs p = (fs p \<noteq> None)"

definition os_path_getmtime :: "fsys \<Rightarrow> string \<Rightarrow> error + real" where
  "os_path_getmtime fs p = (case fs p of
       None \<Rightarrow> Inl FileNotFoundError
     | Some (RegFile c t) \<Rightarrow> Inr t
     | Some (Directory t) \<Rightarrow> Inr t)"

text \<open>\<^verbatim>\<open>os.path.join\<close> of two components, as \<^verbatim>\<open>posixpath\<close> has it.\<close>

definition os_path_join :: "string \<Rightarrow> string \<Rightarrow> string" where
  "os_path_join a b =
     (if startswith b ''/'' then b
      else if a = [] \<or> last a = CHR ''/'' then a @ b
      else a @ ''/'' @ b)"

text \<open>
  What the function does to the outside, in order: a command given to
  \<^verbatim>\<open>subprocess.run\<close>, or a call of \<^verbatim>\<open>os.makedirs\<close>.
\<close>

datatype call = Run "string list" | Makedirs string

text \<open>
  Lines 264 to 267, reached with \<open>update\<close> decided. The two effects are parameters:
  \<open>run cmd fs\<close> gives whether the command exited with status zero and the file
  system it left (\<^verbatim>\<open>check=True\<close> turns a non-zero status into an exception), and
  \<open>makedirs p fs\<close> gives the exception \<^verbatim>\<open>os.makedirs\<close> raised, if any, and the file
  system it left.
\<close>

definition copy_if_update ::
  "(string list \<Rightarrow> fsys \<Rightarrow> bool \<times> fsys) \<Rightarrow> (string \<Rightarrow> fsys \<Rightarrow> error option \<times> fsys)
     \<Rightarrow> bool \<Rightarrow> string \<Rightarrow> string \<Rightarrow> fsys \<Rightarrow> error option \<times> fsys \<times> call list" where
  "copy_if_update run makedirs update target libdir fs1 =
     (if update then
        (case (if \<not> os_path_exists fs1 libdir
               then (case makedirs libdir fs1 of (r, fs2) \<Rightarrow> (r, fs2, [Makedirs libdir]))
               else (None, fs1, [])) of
           (Some e, fs2, calls) \<Rightarrow> (Some e, fs2, calls)
         | (None, fs2, calls) \<Rightarrow>
             (case run [''cp'', target, libdir] fs2 of
                (ok, fs3) \<Rightarrow>
                  (if ok then None else Some CalledProcessError,
                   fs3, calls @ [Run [''cp'', target, libdir]])))
      else (None, fs1, []))"

text \<open>The path built at source lines 245 to 248.\<close>

definition prefab_target :: "string \<Rightarrow> string \<Rightarrow> string \<Rightarrow> string" where
  "prefab_target platform buildtype mode =
     (let suffix = (if buildtype = ''server'' then ''_server'' else ''_gui'')
      in ''build/prefab/lib/'' @ platform @ suffix @ ''/'' @ mode @ ''/''
           @ ''libballistica_plus.a'')"

text \<open>
  The whole function. \<open>platform\<close> is what
  \<^verbatim>\<open>batools.build.get_current_prefab_platform\<close> returns. The result holds the
  exception if one was raised, the file system reached, and the calls made.
\<close>

definition update_cmake_prefab_lib ::
  "(string list \<Rightarrow> fsys \<Rightarrow> bool \<times> fsys) \<Rightarrow> (string \<Rightarrow> fsys \<Rightarrow> error option \<times> fsys)
     \<Rightarrow> string \<Rightarrow> string list \<Rightarrow> fsys \<Rightarrow> error option \<times> fsys \<times> call list" where
  "update_cmake_prefab_lib run makedirs platform argv fs0 =
     (if length argv \<noteq> 5 then
        (Some (CleanError ''Expected 3 args (standard/server, debug/release, build-dir)''),
         fs0, [])
      else
        let buildtype = argv ! 2; mode = argv ! 3; builddir = argv ! 4 in
        if buildtype \<notin> {''standard'', ''server''} then
          (Some (CleanError (''Invalid buildtype: '' @ buildtype)), fs0, [])
        else if mode \<notin> {''debug'', ''release''} then
          (Some (CleanError (''Invalid mode: '' @ mode)), fs0, [])
        else
          let target = prefab_target platform buildtype mode in
          case run [''make'', target] fs0 of
            (False, fs1) \<Rightarrow> (Some CalledProcessError, fs1, [Run [''make'', target]])
          | (True, fs1) \<Rightarrow>
              let libdir = os_path_join builddir ''prefablib'';
                  libpath = os_path_join libdir ''libballistica_plus.a''
              in
              (case os_path_getmtime fs1 target of
                 Inl e \<Rightarrow> (Some e, fs1, [Run [''make'', target]])
               | Inr time1 \<Rightarrow>
                   (case (if os_path_exists fs1 libpath
                          then (case os_path_getmtime fs1 libpath of
                                  Inl e \<Rightarrow> Inl e
                                | Inr time2 \<Rightarrow> Inr (\<not> time1 \<le> time2))
                          else Inr True) of
                      Inl e \<Rightarrow> (Some e, fs1, [Run [''make'', target]])
                    | Inr update \<Rightarrow>
                        (case copy_if_update run makedirs update target libdir fs1 of
                           (r, fs2, calls) \<Rightarrow> (r, fs2, Run [''make'', target] # calls)))))"

text \<open>
  Effects used to run the staging on concrete inputs: \<^verbatim>\<open>make\<close> writes its target with
  modification time 100, \<^verbatim>\<open>cp\<close> of a regular file writes the copy with modification
  time 200, and \<^verbatim>\<open>os.makedirs\<close> creates the directory.
\<close>

definition sample_run :: "string list \<Rightarrow> fsys \<Rightarrow> bool \<times> fsys" where
  "sample_run cmd fs =
     (if length cmd = 2 \<and> cmd ! 0 = ''make'' then
        (True, fs(cmd ! 1 \<mapsto> RegFile ''built'' 100))
      else if length cmd = 3 \<and> cmd ! 0 = ''cp'' then
        (case fs (cmd ! 1) of
           Some (RegFile c t) \<Rightarrow>
             (True, fs(os_path_join (cmd ! 2) ''libballistica_plus.a'' \<mapsto> RegFile c 200))
         | _ \<Rightarrow> (False, fs))
      else (False, fs))"

definition sample_makedirs :: "string \<Rightarrow> fsys \<Rightarrow> error option \<times> fsys" where
  "sample_makedirs p fs = (None, fs(p \<mapsto> Directory 150))"

section \<open>Orphan reconciliation: \<^verbatim>\<open>clean_orphaned_assets\<close>\<close>

text \<open>
  The values \<^verbatim>\<open>json.loads\<close> can return. Numbers are kept as integers; a float
  behaves as an integer does in everything below.
\<close>

datatype json =
    JNull
  | JBool bool
  | JNum int
  | JStr string
  | JList "json list"
  | JObj "(string \<times> json) list"

text \<open>
  \<^verbatim>\<open>set(v)\<close> on a decoded value: a list is accepted when every element is hashable
  (lists and dicts are not), a dict gives its keys, a string its characters, and
  anything else is not iterable. The set is only ever asked whether it holds a given
  string, so the strings in it are all that is kept.
\<close>

fun hashable :: "json \<Rightarrow> bool" where
  "hashable (JList xs) = False"
| "hashable (JObj kvs) = False"
| "hashable v = True"

fun str_members :: "json list \<Rightarrow> string list" where
  "str_members [] = []"
| "str_members (JStr s # vs) = s # str_members vs"
| "str_members (v # vs) = str_members vs"

fun py_set :: "json \<Rightarrow> error + string list" where
  "py_set (JList xs) = (if list_all hashable xs then Inr (str_members xs) else Inl TypeError)"
| "py_set (JObj kvs) = Inr (map fst kvs)"
| "py_set (JStr s) = Inr (map (\<lambda>c. [c]) s)"
| "py_set v = Inl TypeError"

text \<open>One manifest file read and turned into a set (source lines 144 to 151).\<close>

definition manifest_set :: "json json_file \<Rightarrow> error + string list" where
  "manifest_set f = (case load_json f of Inl e \<Rightarrow> Inl e | Inr v \<Rightarrow> py_set v)"

text \<open>
  The tree under \<^verbatim>\<open>build/assets\<close>, as \<^verbatim>\<open>os.walk\<close> reports a directory: whether the
  directory can be written to (entries of a directory that cannot are not removable),
  the names and contents of its files, and the names of its subdirectories with what
  they hold, both in the order the walk lists them.
\<close>

datatype node = Dir bool "(string \<times> string) list" "(string \<times> node) list"

text \<open>
  The inner loop at source lines 153 to 158 over the files of one directory. The
  message is printed before \<^verbatim>\<open>os.unlink\<close> is called; where the directory cannot be
  written to, \<^verbatim>\<open>os.unlink\<close> raises and the loop ends there. The result holds the
  exception, the files left in the directory, and the lines printed.
\<close>

fun clean_files ::
  "string set \<Rightarrow> string \<Rightarrow> bool \<Rightarrow> (string \<times> string) list
     \<Rightarrow> error option \<times> (string \<times> string) list \<times> string list" where
  "clean_files manifest rootdir w [] = (None, [], [])"
| "clean_files manifest rootdir w ((fname, c) # rest) =
     (let fpath = os_path_join rootdir fname;
          fpathrel = drop 13 fpath
      in if fpathrel \<notin> manifest then
           (if w then
              (case clean_files manifest rootdir w rest of
                 (r, kept, out) \<Rightarrow>
                   (r, kept, (''Removing orphaned asset file: '' @ fpath) # out))
            else (Some PermissionError, (fname, c) # rest,
                  [''Removing orphaned asset file: '' @ fpath]))
         else
           (case clean_files manifest rootdir w rest of
              (r, kept, out) \<Rightarrow> (r, (fname, c) # kept, out)))"

text \<open>
  The outer loop over \<^verbatim>\<open>os.walk\<close>, which is top-down: the files of a directory come
  first, then each subdirectory in turn, under the path \<^verbatim>\<open>os.path.join(root, name)\<close>.
\<close>

fun clean_walk :: "string set \<Rightarrow> string \<Rightarrow> node \<Rightarrow> error option \<times> node \<times> string list"
  and clean_subdirs ::
    "string set \<Rightarrow> string \<Rightarrow> (string \<times> node) list
       \<Rightarrow> error option \<times> (string \<times> node) list \<times> string list" where
  "clean_walk manifest rootdir (Dir w fnames dirs) =
     (case clean_files manifest rootdir w fnames of
        (Some e, fnames', out) \<Rightarrow> (Some e, Dir w fnames' dirs, out)
      | (None, fnames', out) \<Rightarrow>
          (case clean_subdirs manifest rootdir dirs of
             (r, dirs', out') \<Rightarrow> (r, Dir w fnames' dirs', out @ out')))"
| "clean_subdirs manifest rootdir [] = (None, [], [])"
| "clean_subdirs manifest rootdir ((name, d) # rest) =
     (case clean_walk manifest (os_path_join rootdir name) d of
        (Some e, d', out) \<Rightarrow> (Some e, (name, d') # rest, out)
      | (None, d', out) \<Rightarrow>
          (case clean_subdirs manifest rootdir rest of
             (r, rest', out') \<Rightarrow> (r, (name, d') # rest', out @ out')))"

text \<open>
  The command \<^verbatim>\<open>find build/assets -depth -empty -type d -delete\<close>: the entries of a
  directory are treated before the directory itself, and a directory that is empty
  when its turn comes is removed. Removing an entry of a directory that cannot be
  written to fails; \<^verbatim>\<open>find\<close> goes on and exits with a non-zero status, which is the
  boolean \<open>False\<close>. The starting directory is removed as well when it ends up empty,
  and a missing starting directory is a non-zero status.
\<close>

fun is_empty_dir :: "node \<Rightarrow> bool" where
  "is_empty_dir (Dir w fnames dirs) = (fnames = [] \<and> dirs = [])"

fun find_prune :: "node \<Rightarrow> bool \<times> node"
  and find_prune_list :: "bool \<Rightarrow> (string \<times> node) list \<Rightarrow> bool \<times> (string \<times> node) list" where
  "find_prune (Dir w fnames dirs) =
     (case find_prune_list w dirs of (ok, dirs') \<Rightarrow> (ok, Dir w fnames dirs'))"
| "find_prune_list w [] = (True, [])"
| "find_prune_list w ((name, d) # rest) =
     (case find_prune d of
        (ok1, d') \<Rightarrow>
          (case find_prune_list w rest of
             (ok2, rest') \<Rightarrow>
               (if is_empty_dir d' then
                  (if w then (ok1 \<and> ok2, rest') else (False, (name, d') # rest'))
                else (ok1 \<and> ok2, (name, d') # rest'))))"

definition find_empty_dirs_delete :: "node option \<Rightarrow> bool \<times> node option" where
  "find_empty_dirs_delete assets =
     (case assets of
        None \<Rightarrow> (False, None)
      | Some t \<Rightarrow>
          (case find_prune t of
             (ok, t') \<Rightarrow> (ok, if is_empty_dir t' then None else Some t')))"

text \<open>
  The whole function, on the two manifest files and the tree at \<^verbatim>\<open>build/assets\<close>
  (\<open>None\<close> when there is no such directory, in which case \<^verbatim>\<open>os.walk\<close> yields
  nothing). The result holds the exception if one was raised, the tree left, and the
  lines printed.
\<close>

definition clean_orphaned_assets ::
  "json json_file \<Rightarrow> json json_file \<Rightarrow> node option
     \<Rightarrow> error option \<times> node option \<times> string list" where
  "clean_orphaned_assets public private assets =
     (case manifest_set public of
        Inl e \<Rightarrow> (Some e, assets, [])
      | Inr m1 \<Rightarrow>
          (case manifest_set private of
             Inl e \<Rightarrow> (Some e, assets, [])
           | Inr m2 \<Rightarrow>
               (let manifest = set m1 \<union> set m2 in
                case (case assets of
                        None \<Rightarrow> (None, None, [])
                      | Some t \<Rightarrow>
                          (case clean_walk manifest ''build/assets'' t of
                             (r, t', out) \<Rightarrow> (r, Some t', out))) of
                  (Some e, assets', out) \<Rightarrow> (Some e, assets', out)
                | (None, assets', out) \<Rightarrow>
                    (case find_empty_dirs_delete assets' of
                       (ok, assets'') \<Rightarrow>
                         (if ok then None else Some CalledProcessError, assets'', out)))))"

text \<open>
  What a tree holds, for stating properties: its files with their paths relative to
  the top and their contents, its directories (the top is the empty path, every other
  directory ends in a slash), and the directories that have a file somewhere below.
\<close>

fun rel_files :: "string \<Rightarrow> node \<Rightarrow> (string \<times> string) list" where
  "rel_files pre (Dir w fnames dirs) =
     map (\<lambda>f. (pre @ fst f, snd f)) fnames
     @ concat (map (\<lambda>e. rel_files (pre @ fst e @ ''/'') (snd e)) dirs)"

fun all_dirs :: "string \<Rightarrow> node \<Rightarrow> string list" where
  "all_dirs pre (Dir w fnames dirs) =
     pre # concat (map (\<lambda>e. all_dirs (pre @ fst e @ ''/'') (snd e)) dirs)"

fun has_file :: "node \<Rightarrow> bool" where
  "has_file (Dir w fnames dirs) = (fnames \<noteq> [] \<or> list_ex (\<lambda>e. has_file (snd e)) dirs)"

fun live_dirs :: "string \<Rightarrow> node \<Rightarrow> string list" where
  "live_dirs pre (Dir w fnames dirs) =
     (if has_file (Dir w fnames dirs)
      then pre # concat (map (\<lambda>e. live_dirs (pre @ fst e @ ''/'') (snd e)) dirs)
      else [])"

definition files_of :: "node option \<Rightarrow> (string \<times> string) list" where
  "files_of assets = (case assets of None \<Rightarrow> [] | Some t \<Rightarrow> rel_files [] t)"

definition dirs_of :: "node option \<Rightarrow> string list" where
  "dirs_of assets = (case assets of None \<Rightarrow> [] | Some t \<Rightarrow> all_dirs [] t)"

text \<open>
  Trees in which every directory can be written to, and trees whose entry names are
  file names: not empty and without a slash.
\<close>

fun all_writable :: "node \<Rightarrow> bool" where
  "all_writable (Dir w fnames dirs) = (w \<and> list_all (\<lambda>e. all_writable (snd e)) dirs)"

definition valid_name :: "string \<Rightarrow> bool" where
  "valid_name n = (n \<noteq> [] \<and> CHR ''/'' \<notin> set n)"

fun valid_names :: "node \<Rightarrow> bool" where
  "valid_names (Dir w fnames dirs) =
     (list_all (\<lambda>f. valid_name (fst f)) fnames
      \<and> list_all (\<lambda>e. valid_name (fst e) \<and> valid_names (snd e)) dirs)"

text \<open>
  How the directory path the walk has reached relates to the relative path of that
  directory: the walk path followed by a slash is \<^verbatim>\<open>build/assets/\<close> followed by the
  relative path, and the walk path does not end in a slash.
\<close>

definition walk_inv :: "string \<Rightarrow> string \<Rightarrow> bool" where
  "walk_inv r pre = (r \<noteq> [] \<and> last r \<noteq> CHR ''/'' \<and> r @ ''/'' = ''build/assets/'' @ pre)"

text \<open>
  A walk cut short, on the list of files in walk order: the files before some orphan
  were treated (the orphans among them are gone), and that orphan and every file after
  it are still there.
\<close>

definition aborted_at ::
  "string set \<Rightarrow> (string \<times> string) list \<Rightarrow> (string \<times> string) list \<Rightarrow> bool" where
  "aborted_at M before after =
     (\<exists>treated f rest. before = treated @ f # rest \<and> fst f \<notin> M
        \<and> after = filter (\<lambda>f. fst f \<in> M) treated @ f # rest)"

text \<open>
  What a walk that ended with result \<open>res\<close> has done to the list of files: without
  exception every orphan is gone and nothing else; with an exception, which is then
  \<^verbatim>\<open>PermissionError\<close>, the walk was cut short.
\<close>

definition walk_outcome ::
  "string set \<Rightarrow> error option \<Rightarrow> (string \<times> string) list \<Rightarrow> (string \<times> string) list \<Rightarrow> bool" where
  "walk_outcome M res before after =
     ((res = None \<longrightarrow> after = filter (\<lambda>f. fst f \<in> M) before)
      \<and> (\<forall>e. res = Some e \<longrightarrow> e = PermissionError \<and> aborted_at M before after))"

text \<open>
  A tree in which some orphan lies in a directory that cannot be written to, so that
  its removal fails.
\<close>

fun blocked :: "string set \<Rightarrow> string \<Rightarrow> node \<Rightarrow> bool" where
  "blocked M pre (Dir w fnames dirs) =
     ((\<not> w \<and> list_ex (\<lambda>f. pre @ fst f \<notin> M) fnames)
      \<or> list_ex (\<lambda>e. blocked M (pre @ fst e @ ''/'') (snd e)) dirs)"


text \<open>The line printed for a file, given its path relative to the top.\<close>

definition report :: "string \<times> string \<Rightarrow> string" where
  "report f = ''Removing orphaned asset file: build/assets/'' @ fst f"

text \<open>
  A walk cut short, with what it printed: as \<open>aborted_at\<close>, and the lines printed are
  those of the orphans treated, in order, followed by the line of the orphan whose
  removal failed; nothing is printed for any file after it.
\<close>

definition cut_short ::
  "string set \<Rightarrow> (string \<times> string) list \<Rightarrow> (string \<times> string) list \<Rightarrow> string list \<Rightarrow> bool" where
  "cut_short M before after out =
     (\<exists>treated f rest. before = treated @ f # rest \<and> fst f \<notin> M
        \<and> after = filter (\<lambda>f. fst f \<in> M) treated @ f # rest
        \<and> out = map report (filter (\<lambda>f. fst f \<notin> M) treated) @ [report f])"

text \<open>
  What a walk that ended with result \<open>res\<close> has printed: without exception one line
  for every orphan, in walk order; with an exception, the lines of a walk cut short.
\<close>

definition walk_report ::
  "string set \<Rightarrow> error option \<Rightarrow> (string \<times> string) list \<Rightarrow> (string \<times> string) list
     \<Rightarrow> string list \<Rightarrow> bool" where
  "walk_report M res before after out =
     ((res = None \<longrightarrow> out = map report (filter (\<lambda>f. fst f \<notin> M) before))
      \<and> (\<forall>e. res = Some e \<longrightarrow> cut_short M before after out))"

section \<open>Properties of prerequisite resolution\<close>











text \<open>
  Claim C4, as stated, fails: \<^verbatim>\<open>gen/mgen/foo.h\<close> does not start with
  \<^verbatim>\<open>src/ballistica/\<close>, so the loop does not add it.
\<close>

theorem prereq_scenario_counterexample:
  "set (add_meta_targets [''T1''] [''gen/mgen/foo.h'', ''docs/readme.md''])
     \<noteq> {''T1'', ''gen/mgen/foo.h''}"
  by (simp add: is_needed_def startswith_def)

text \<open>
  Claim C4, amended. Starting from the set \<open>{T1}\<close>, the entries
  \<^verbatim>\<open>gen/mgen/foo.h\<close> and \<^verbatim>\<open>docs/readme.md\<close> leave the fetch set at \<open>{T1}\<close>; with
  the first entry under \<^verbatim>\<open>src/ballistica/\<close> it is added and the fetch set has two
  members.
\<close>

theorem prereq_scenario_amended:
  "set (add_meta_targets [''T1''] [''gen/mgen/foo.h'', ''docs/readme.md'']) = {''T1''}
   \<and> set (add_meta_targets [''T1'']
            [''src/ballistica/gen/mgen/foo.h'', ''docs/readme.md''])
       = {''T1'', ''src/ballistica/gen/mgen/foo.h''}"
  by (simp add: is_needed_def startswith_def set_add_def)







section \<open>Properties of incremental staging\<close>

text \<open>
  Claim C10. Called with three arguments of which the build type is not
  \<^verbatim>\<open>standard\<close> or \<^verbatim>\<open>server\<close>, or the mode is not \<^verbatim>\<open>debug\<close> or \<^verbatim>\<open>release\<close>, the
  function raises \<^verbatim>\<open>CleanError\<close>, has run no command and created no directory, and
  the file system is as it was.
\<close>

theorem staging_validates_first:
  assumes "length argv = 5"
    and "argv ! 2 \<notin> {''standard'', ''server''} \<or> argv ! 3 \<notin> {''debug'', ''release''}"
  shows "\<exists>msg. update_cmake_prefab_lib run makedirs platform argv fs0
           = (Some (CleanError msg), fs0, [])"
  using assms by (auto simp: update_cmake_prefab_lib_def Let_def)

theorem staging_validates_first_witness:
  "length [''pcommand'', ''update_cmake_prefab_lib'', ''standard'', ''fast'', ''out''] = 5
   \<and> [''pcommand'', ''update_cmake_prefab_lib'', ''standard'', ''fast'', ''out''] ! 3
        \<notin> {''debug'', ''release''}
   \<and> (\<exists>msg. update_cmake_prefab_lib sample_run sample_makedirs ''linux_x86_64''
          [''pcommand'', ''update_cmake_prefab_lib'', ''standard'', ''fast'', ''out'']
          Map.empty = (Some (CleanError msg), Map.empty, []))"
  using staging_validates_first [of
      "[''pcommand'', ''update_cmake_prefab_lib'', ''standard'', ''fast'', ''out'']"
      sample_run sample_makedirs "''linux_x86_64''" Map.empty]
  by simp

lemma staging_after_build:
  assumes "length argv = 5"
    and "argv ! 2 \<in> {''standard'', ''server''}" and "argv ! 3 \<in> {''debug'', ''release''}"
    and "run [''make'', prefab_target platform (argv ! 2) (argv ! 3)] fs0 = (True, fs1)"
    and "os_path_getmtime fs1 (prefab_target platform (argv ! 2) (argv ! 3)) = Inr time1"
  shows "update_cmake_prefab_lib run makedirs platform argv fs0 =
     (case copy_if_update run makedirs
         (case fs1 (os_path_join (os_path_join (argv ! 4) ''prefablib'') ''libballistica_plus.a'') of
            None \<Rightarrow> True
          | Some (RegFile c time2) \<Rightarrow> \<not> time1 \<le> time2
          | Some (Directory time2) \<Rightarrow> \<not> time1 \<le> time2)
         (prefab_target platform (argv ! 2) (argv ! 3))
         (os_path_join (argv ! 4) ''prefablib'') fs1 of
        (r, fs2, calls) \<Rightarrow>
          (r, fs2, Run [''make'', prefab_target platform (argv ! 2) (argv ! 3)] # calls))"
  using assms
  by (auto simp: update_cmake_prefab_lib_def Let_def os_path_exists_def
      os_path_getmtime_def split: option.splits entry.splits prod.splits)

lemma copy_if_update_cp:
  assumes "os_path_exists fs1 libdir \<or> fst (makedirs libdir fs1) = None"
  shows "Run [''cp'', target, libdir]
           \<in> set (snd (snd (copy_if_update run makedirs update target libdir fs1)))
         \<longleftrightarrow> update"
  using assms
  by (auto simp: copy_if_update_def split: prod.splits option.splits)

lemma copy_if_update_result:
  assumes "os_path_exists fs1 libdir \<or> fst (makedirs libdir fs1) = None"
  shows "copy_if_update run makedirs True target libdir fs1 =
     (if fst (run [''cp'', target, libdir]
               (if os_path_exists fs1 libdir then fs1 else snd (makedirs libdir fs1)))
      then None else Some CalledProcessError,
      snd (run [''cp'', target, libdir]
             (if os_path_exists fs1 libdir then fs1 else snd (makedirs libdir fs1))),
      (if os_path_exists fs1 libdir then [] else [Makedirs libdir])
        @ [Run [''cp'', target, libdir]])"
  using assms
  by (auto simp: copy_if_update_def split: prod.splits option.splits)

text \<open>
  Claim C2. After a successful build of a target that then exists, and when the
  destination directory exists or can be created, the \<^verbatim>\<open>cp\<close> command is run if and
  only if the destination file does not exist or its modification time is strictly
  less than the target's. In that case the directory is created first when it is
  absent, the exit status of \<^verbatim>\<open>cp\<close> decides the result, and the file system is the one
  \<^verbatim>\<open>cp\<close> left. With equal times, or a newer destination, nothing is run after the
  build and the file system is the one the build left.
\<close>

theorem staging_copies_iff_stale:
  assumes "length argv = 5"
    and "argv ! 2 \<in> {''standard'', ''server''}" and "argv ! 3 \<in> {''debug'', ''release''}"
    and "target = prefab_target platform (argv ! 2) (argv ! 3)"
    and "libdir = os_path_join (argv ! 4) ''prefablib''"
    and "libpath = os_path_join libdir ''libballistica_plus.a''"
    and "run [''make'', target] fs0 = (True, fs1)"
    and "os_path_getmtime fs1 target = Inr time1"
    and "os_path_exists fs1 libdir \<or> fst (makedirs libdir fs1) = None"
  shows "(Run [''cp'', target, libdir]
            \<in> set (snd (snd (update_cmake_prefab_lib run makedirs platform argv fs0)))
          \<longleftrightarrow> (\<not> os_path_exists fs1 libpath
               \<or> (\<exists>time2. os_path_getmtime fs1 libpath = Inr time2 \<and> time2 < time1)))
       \<and> ((\<not> os_path_exists fs1 libpath
             \<or> (\<exists>time2. os_path_getmtime fs1 libpath = Inr time2 \<and> time2 < time1)) \<longrightarrow>
            update_cmake_prefab_lib run makedirs platform argv fs0 =
              (if fst (run [''cp'', target, libdir]
                        (if os_path_exists fs1 libdir then fs1 else snd (makedirs libdir fs1)))
               then None else Some CalledProcessError,
               snd (run [''cp'', target, libdir]
                      (if os_path_exists fs1 libdir then fs1 else snd (makedirs libdir fs1))),
               Run [''make'', target]
                 # (if os_path_exists fs1 libdir then [] else [Makedirs libdir])
                 @ [Run [''cp'', target, libdir]]))
       \<and> (\<not> (\<not> os_path_exists fs1 libpath
               \<or> (\<exists>time2. os_path_getmtime fs1 libpath = Inr time2 \<and> time2 < time1)) \<longrightarrow>
            update_cmake_prefab_lib run makedirs platform argv fs0
              = (None, fs1, [Run [''make'', target]]))"
proof -
  let ?update = "case fs1 libpath of
            None \<Rightarrow> True
          | Some (RegFile c time2) \<Rightarrow> \<not> time1 \<le> time2
          | Some (Directory time2) \<Rightarrow> \<not> time1 \<le> time2"
  let ?stale = "\<not> os_path_exists fs1 libpath
              \<or> (\<exists>time2. os_path_getmtime fs1 libpath = Inr time2 \<and> time2 < time1)"
  have u: "?update \<longleftrightarrow> ?stale"
    by (auto simp: os_path_exists_def os_path_getmtime_def split: option.splits entry.splits)
  have res: "update_cmake_prefab_lib run makedirs platform argv fs0 =
     (case copy_if_update run makedirs ?update target libdir fs1 of
        (r, fs2, calls) \<Rightarrow> (r, fs2, Run [''make'', target] # calls))"
    using staging_after_build [of argv run platform fs0 fs1 time1 makedirs] assms by simp
  then have "Run [''cp'', target, libdir]
           \<in> set (snd (snd (update_cmake_prefab_lib run makedirs platform argv fs0)))
     \<longleftrightarrow> Run [''cp'', target, libdir]
           \<in> set (snd (snd (copy_if_update run makedirs ?update target libdir fs1)))"
    by (auto split: prod.splits)
  moreover have "Run [''cp'', target, libdir]
           \<in> set (snd (snd (copy_if_update run makedirs ?update target libdir fs1)))
     \<longleftrightarrow> ?update"
    using assms(9) by (rule copy_if_update_cp)
  ultimately have a: "Run [''cp'', target, libdir]
            \<in> set (snd (snd (update_cmake_prefab_lib run makedirs platform argv fs0)))
          \<longleftrightarrow> ?stale"
    using u by blast
  have b: "?stale \<longrightarrow>
            update_cmake_prefab_lib run makedirs platform argv fs0 =
              (if fst (run [''cp'', target, libdir]
                        (if os_path_exists fs1 libdir then fs1 else snd (makedirs libdir fs1)))
               then None else Some CalledProcessError,
               snd (run [''cp'', target, libdir]
                      (if os_path_exists fs1 libdir then fs1 else snd (makedirs libdir fs1))),
               Run [''make'', target]
                 # (if os_path_exists fs1 libdir then [] else [Makedirs libdir])
                 @ [Run [''cp'', target, libdir]])"
  proof
    assume ?stale
    with u have "?update = True" by simp
    moreover have "copy_if_update run makedirs True target libdir fs1 =
     (if fst (run [''cp'', target, libdir]
               (if os_path_exists fs1 libdir then fs1 else snd (makedirs libdir fs1)))
      then None else Some CalledProcessError,
      snd (run [''cp'', target, libdir]
             (if os_path_exists fs1 libdir then fs1 else snd (makedirs libdir fs1))),
      (if os_path_exists fs1 libdir then [] else [Makedirs libdir])
        @ [Run [''cp'', target, libdir]])"
      using assms(9) by (rule copy_if_update_result)
    ultimately show
      "update_cmake_prefab_lib run makedirs platform argv fs0 =
              (if fst (run [''cp'', target, libdir]
                        (if os_path_exists fs1 libdir then fs1 else snd (makedirs libdir fs1)))
               then None else Some CalledProcessError,
               snd (run [''cp'', target, libdir]
                      (if os_path_exists fs1 libdir then fs1 else snd (makedirs libdir fs1))),
               Run [''make'', target]
                 # (if os_path_exists fs1 libdir then [] else [Makedirs libdir])
                 @ [Run [''cp'', target, libdir]])"
      using res by simp
  qed
  have c: "\<not> ?stale \<longrightarrow>
            update_cmake_prefab_lib run makedirs platform argv fs0
              = (None, fs1, [Run [''make'', target]])"
  proof
    assume "\<not> ?stale"
    with u have "?update = False" by simp
    with res show "update_cmake_prefab_lib run makedirs platform argv fs0
              = (None, fs1, [Run [''make'', target]])"
      by (simp add: copy_if_update_def)
  qed
  from a b c show ?thesis by blast
qed

text \<open>
  Claim C9. When the destination exists after the build and is at least as new as
  the target, the function returns normally, the only call it has made is the build
  command, and the file system is the one the build left: no directory was created
  and the destination was not written.
\<close>

theorem staging_noop_frame:
  assumes "length argv = 5"
    and "argv ! 2 \<in> {''standard'', ''server''}" and "argv ! 3 \<in> {''debug'', ''release''}"
    and "target = prefab_target platform (argv ! 2) (argv ! 3)"
    and "libdir = os_path_join (argv ! 4) ''prefablib''"
    and "libpath = os_path_join libdir ''libballistica_plus.a''"
    and "run [''make'', target] fs0 = (True, fs1)"
    and "os_path_getmtime fs1 target = Inr time1"
    and "os_path_exists fs1 libpath"
    and "os_path_getmtime fs1 libpath = Inr time2"
    and "time1 \<le> time2"
  shows "update_cmake_prefab_lib run makedirs platform argv fs0
           = (None, fs1, [Run [''make'', target]])"
proof -
  have "(case fs1 libpath of
            None \<Rightarrow> True
          | Some (RegFile c time2) \<Rightarrow> \<not> time1 \<le> time2
          | Some (Directory time2) \<Rightarrow> \<not> time1 \<le> time2) = False"
    using assms(9,10,11)
    by (auto simp: os_path_exists_def os_path_getmtime_def split: option.splits entry.splits)
  then show ?thesis
    using staging_after_build [of argv run platform fs0 fs1 time1 makedirs] assms
    by (simp add: copy_if_update_def)
qed

theorem staging_copies_iff_stale_witness:
  "update_cmake_prefab_lib sample_run sample_makedirs ''linux_x86_64'' [''pcommand'', ''update_cmake_prefab_lib'', ''standard'', ''debug'', ''out''] Map.empty
     = (None,
        [''build/prefab/lib/linux_x86_64_gui/debug/libballistica_plus.a'' \<mapsto> RegFile ''built'' 100,
         ''out/prefablib'' \<mapsto> Directory 150,
         ''out/prefablib/libballistica_plus.a'' \<mapsto> RegFile ''built'' 200],
        [Run [''make'', ''build/prefab/lib/linux_x86_64_gui/debug/libballistica_plus.a''], Makedirs ''out/prefablib'', Run [''cp'', ''build/prefab/lib/linux_x86_64_gui/debug/libballistica_plus.a'', ''out/prefablib'']])
   \<and> \<not> os_path_exists (Map.empty(''build/prefab/lib/linux_x86_64_gui/debug/libballistica_plus.a'' \<mapsto> RegFile ''built'' 100))
         ''out/prefablib/libballistica_plus.a''
   \<and> Run [''cp'', ''build/prefab/lib/linux_x86_64_gui/debug/libballistica_plus.a'', ''out/prefablib'']
       \<in> set (snd (snd (update_cmake_prefab_lib sample_run sample_makedirs ''linux_x86_64''
             [''pcommand'', ''update_cmake_prefab_lib'', ''standard'', ''debug'', ''out''] Map.empty)))"
proof -
  let ?fs1 = "Map.empty(''build/prefab/lib/linux_x86_64_gui/debug/libballistica_plus.a'' \<mapsto> RegFile ''built'' 100)"
  have a: "length [''pcommand'', ''update_cmake_prefab_lib'', ''standard'', ''debug'', ''out''] = 5" by simp
  have b: "[''pcommand'', ''update_cmake_prefab_lib'', ''standard'', ''debug'', ''out''] ! 2 \<in> {''standard'', ''server''}" by simp
  have c: "[''pcommand'', ''update_cmake_prefab_lib'', ''standard'', ''debug'', ''out''] ! 3 \<in> {''debug'', ''release''}" by simp
  have d: "''build/prefab/lib/linux_x86_64_gui/debug/libballistica_plus.a'' = prefab_target ''linux_x86_64'' ([''pcommand'', ''update_cmake_prefab_lib'', ''standard'', ''debug'', ''out''] ! 2) ([''pcommand'', ''update_cmake_prefab_lib'', ''standard'', ''debug'', ''out''] ! 3)"
    by (simp add: prefab_target_def)
  have e: "''out/prefablib'' = os_path_join ([''pcommand'', ''update_cmake_prefab_lib'', ''standard'', ''debug'', ''out''] ! 4) ''prefablib''"
    by (simp add: os_path_join_def startswith_def)
  have f: "''out/prefablib/libballistica_plus.a''
             = os_path_join ''out/prefablib'' ''libballistica_plus.a''"
    by (simp add: os_path_join_def startswith_def)
  have g: "sample_run [''make'', ''build/prefab/lib/linux_x86_64_gui/debug/libballistica_plus.a''] Map.empty = (True, ?fs1)"
    by (simp add: sample_run_def)
  have h: "os_path_getmtime ?fs1 ''build/prefab/lib/linux_x86_64_gui/debug/libballistica_plus.a'' = Inr 100"
    by (simp add: os_path_getmtime_def)
  have i: "os_path_exists ?fs1 ''out/prefablib''
           \<or> fst (sample_makedirs ''out/prefablib'' ?fs1) = None"
    by (simp add: sample_makedirs_def)
  have j: "\<not> os_path_exists ?fs1 ''out/prefablib/libballistica_plus.a''"
    by (simp add: os_path_exists_def)
  note th = staging_copies_iff_stale [where argv = "[''pcommand'', ''update_cmake_prefab_lib'', ''standard'', ''debug'', ''out'']" and target = "''build/prefab/lib/linux_x86_64_gui/debug/libballistica_plus.a''"
      and platform = "''linux_x86_64''" and libdir = "''out/prefablib''"
      and libpath = "''out/prefablib/libballistica_plus.a''" and run = sample_run
      and makedirs = sample_makedirs,
      OF a b c d e f g h i]
  from th j have res: "update_cmake_prefab_lib sample_run sample_makedirs ''linux_x86_64'' [''pcommand'', ''update_cmake_prefab_lib'', ''standard'', ''debug'', ''out'']
      Map.empty =
      (if fst (sample_run [''cp'', ''build/prefab/lib/linux_x86_64_gui/debug/libballistica_plus.a'', ''out/prefablib'']
                (if os_path_exists ?fs1 ''out/prefablib'' then ?fs1
                 else snd (sample_makedirs ''out/prefablib'' ?fs1)))
       then None else Some CalledProcessError,
       snd (sample_run [''cp'', ''build/prefab/lib/linux_x86_64_gui/debug/libballistica_plus.a'', ''out/prefablib'']
              (if os_path_exists ?fs1 ''out/prefablib'' then ?fs1
               else snd (sample_makedirs ''out/prefablib'' ?fs1))),
       Run [''make'', ''build/prefab/lib/linux_x86_64_gui/debug/libballistica_plus.a'']
         # (if os_path_exists ?fs1 ''out/prefablib'' then [] else [Makedirs ''out/prefablib''])
         @ [Run [''cp'', ''build/prefab/lib/linux_x86_64_gui/debug/libballistica_plus.a'', ''out/prefablib'']])"
    by blast
  have k: "\<not> os_path_exists ?fs1 ''out/prefablib''"
    by (simp add: os_path_exists_def)
  have l: "sample_run [''cp'', ''build/prefab/lib/linux_x86_64_gui/debug/libballistica_plus.a'', ''out/prefablib'']
             (snd (sample_makedirs ''out/prefablib'' ?fs1))
           = (True, [''build/prefab/lib/linux_x86_64_gui/debug/libballistica_plus.a'' \<mapsto> RegFile ''built'' 100,
                     ''out/prefablib'' \<mapsto> Directory 150,
                     ''out/prefablib/libballistica_plus.a'' \<mapsto> RegFile ''built'' 200])"
    by (simp add: sample_run_def sample_makedirs_def os_path_join_def startswith_def)
  from res k l j show ?thesis
    by simp
qed

theorem staging_noop_frame_witness:
  "update_cmake_prefab_lib sample_run sample_makedirs ''linux_x86_64'' [''pcommand'', ''update_cmake_prefab_lib'', ''standard'', ''debug'', ''out'']
       (Map.empty(''out/prefablib/libballistica_plus.a'' \<mapsto> RegFile ''old'' 100))
     = (None,
        (Map.empty(''out/prefablib/libballistica_plus.a'' \<mapsto> RegFile ''old'' 100))
          (''build/prefab/lib/linux_x86_64_gui/debug/libballistica_plus.a'' \<mapsto> RegFile ''built'' 100),
        [Run [''make'', ''build/prefab/lib/linux_x86_64_gui/debug/libballistica_plus.a'']])"
proof -
  let ?fs0 = "Map.empty(''out/prefablib/libballistica_plus.a'' \<mapsto> RegFile ''old'' 100)"
  let ?fs1 = "?fs0(''build/prefab/lib/linux_x86_64_gui/debug/libballistica_plus.a'' \<mapsto> RegFile ''built'' 100)"
  have a: "length [''pcommand'', ''update_cmake_prefab_lib'', ''standard'', ''debug'', ''out''] = 5" by simp
  have b: "[''pcommand'', ''update_cmake_prefab_lib'', ''standard'', ''debug'', ''out''] ! 2 \<in> {''standard'', ''server''}" by simp
  have c: "[''pcommand'', ''update_cmake_prefab_lib'', ''standard'', ''debug'', ''out''] ! 3 \<in> {''debug'', ''release''}" by simp
  have d: "''build/prefab/lib/linux_x86_64_gui/debug/libballistica_plus.a'' = prefab_target ''linux_x86_64'' ([''pcommand'', ''update_cmake_prefab_lib'', ''standard'', ''debug'', ''out''] ! 2) ([''pcommand'', ''update_cmake_prefab_lib'', ''standard'', ''debug'', ''out''] ! 3)"
    by (simp add: prefab_target_def)
  have e: "''out/prefablib'' = os_path_join ([''pcommand'', ''update_cmake_prefab_lib'', ''standard'', ''debug'', ''out''] ! 4) ''prefablib''"
    by (simp add: os_path_join_def startswith_def)
  have f: "''out/prefablib/libballistica_plus.a''
             = os_path_join ''out/prefablib'' ''libballistica_plus.a''"
    by (simp add: os_path_join_def startswith_def)
  have g: "sample_run [''make'', ''build/prefab/lib/linux_x86_64_gui/debug/libballistica_plus.a''] ?fs0 = (True, ?fs1)"
    by (simp add: sample_run_def)
  have h: "os_path_getmtime ?fs1 ''build/prefab/lib/linux_x86_64_gui/debug/libballistica_plus.a'' = Inr 100"
    by (simp add: os_path_getmtime_def)
  have i: "os_path_exists ?fs1 ''out/prefablib/libballistica_plus.a''"
    by (simp add: os_path_exists_def)
  have j: "os_path_getmtime ?fs1 ''out/prefablib/libballistica_plus.a'' = Inr 100"
    by (simp add: os_path_getmtime_def)
  have k: "(100::real) \<le> 100" by simp
  show ?thesis
    using a b c d e f g h i j k by (rule staging_noop_frame)
qed

section \<open>Properties of orphan reconciliation\<close>

lemma clean_files_writable:
  "clean_files M r True fs =
     (None, filter (\<lambda>f. drop 13 (os_path_join r (fst f)) \<in> M) fs,
      map (\<lambda>f. ''Removing orphaned asset file: '' @ os_path_join r (fst f))
        (filter (\<lambda>f. drop 13 (os_path_join r (fst f)) \<notin> M) fs))"
  by (induction fs) (auto simp: Let_def)

lemma join_valid:
  "valid_name n \<Longrightarrow> r \<noteq> [] \<Longrightarrow> last r \<noteq> CHR ''/'' \<Longrightarrow> os_path_join r n = r @ ''/'' @ n"
  by (cases n) (auto simp: os_path_join_def startswith_def valid_name_def)

lemma walk_inv_top: "walk_inv ''build/assets'' []"
  by (simp add: walk_inv_def)

lemma walk_inv_rel:
  assumes "walk_inv r pre" and "valid_name n"
  shows "drop 13 (os_path_join r n) = pre @ n"
proof -
  from assms have "os_path_join r n = (r @ ''/'') @ n"
    by (simp add: walk_inv_def join_valid)
  also from assms have "\<dots> = ''build/assets/'' @ pre @ n"
    by (simp add: walk_inv_def)
  finally show ?thesis by simp
qed

lemma walk_inv_sub:
  assumes "walk_inv r pre" and "valid_name n"
  shows "walk_inv (os_path_join r n) (pre @ n @ ''/'')"
proof -
  from assms have j: "os_path_join r n = (r @ ''/'') @ n"
    by (simp add: walk_inv_def join_valid)
  also from assms have "\<dots> = ''build/assets/'' @ pre @ n"
    by (simp add: walk_inv_def)
  finally have "os_path_join r n @ ''/'' = ''build/assets/'' @ pre @ n @ ''/''" by simp
  moreover from assms(2) have "last n \<noteq> CHR ''/''"
    unfolding valid_name_def by (metis last_in_set)
  with assms(2) j have "os_path_join r n \<noteq> [] \<and> last (os_path_join r n) \<noteq> CHR ''/''"
    by (simp add: valid_name_def)
  ultimately show ?thesis by (simp add: walk_inv_def)
qed

lemma clean_walk_writable:
  "all_writable t \<Longrightarrow> valid_names t \<Longrightarrow> walk_inv r pre \<Longrightarrow>
     \<exists>t' out. clean_walk M r t = (None, t', out)
        \<and> rel_files pre t' = filter (\<lambda>f. fst f \<in> M) (rel_files pre t)
        \<and> all_dirs pre t' = all_dirs pre t \<and> all_writable t'"
  and clean_subdirs_writable:
  "list_all (\<lambda>e. all_writable (snd e)) ds \<Longrightarrow>
   list_all (\<lambda>e. valid_name (fst e) \<and> valid_names (snd e)) ds \<Longrightarrow> walk_inv r pre \<Longrightarrow>
     \<exists>ds' out. clean_subdirs M r ds = (None, ds', out)
        \<and> concat (map (\<lambda>e. rel_files (pre @ fst e @ ''/'') (snd e)) ds')
            = filter (\<lambda>f. fst f \<in> M)
                (concat (map (\<lambda>e. rel_files (pre @ fst e @ ''/'') (snd e)) ds))
        \<and> concat (map (\<lambda>e. all_dirs (pre @ fst e @ ''/'') (snd e)) ds')
            = concat (map (\<lambda>e. all_dirs (pre @ fst e @ ''/'') (snd e)) ds)
        \<and> list_all (\<lambda>e. all_writable (snd e)) ds'"
proof (induction M r t and M r ds arbitrary: pre and pre rule: clean_walk_clean_subdirs.induct)
  case (1 manifest rootdir w fnames dirs)
  from "1.prems" have w: "w" and aw: "list_all (\<lambda>e. all_writable (snd e)) dirs"
    and vf: "list_all (\<lambda>f. valid_name (fst f)) fnames"
    and vd: "list_all (\<lambda>e. valid_name (fst e) \<and> valid_names (snd e)) dirs"
    by simp_all
  let ?keep = "filter (\<lambda>f. drop 13 (os_path_join rootdir (fst f)) \<in> manifest) fnames"
  have cf: "clean_files manifest rootdir w fnames = (None, ?keep,
      map (\<lambda>f. ''Removing orphaned asset file: '' @ os_path_join rootdir (fst f))
        (filter (\<lambda>f. drop 13 (os_path_join rootdir (fst f)) \<notin> manifest) fnames))"
    using w clean_files_writable by simp
  from "1.IH" [OF cf [symmetric] refl refl aw vd "1.prems"(3)]
  obtain ds' out where sub: "clean_subdirs manifest rootdir dirs = (None, ds', out)"
    and f: "concat (map (\<lambda>e. rel_files (pre @ fst e @ ''/'') (snd e)) ds')
            = filter (\<lambda>f. fst f \<in> manifest)
                (concat (map (\<lambda>e. rel_files (pre @ fst e @ ''/'') (snd e)) dirs))"
    and d: "concat (map (\<lambda>e. all_dirs (pre @ fst e @ ''/'') (snd e)) ds')
            = concat (map (\<lambda>e. all_dirs (pre @ fst e @ ''/'') (snd e)) dirs)"
    and a: "list_all (\<lambda>e. all_writable (snd e)) ds'"
    by blast
  have k: "map (\<lambda>f. (pre @ fst f, snd f)) ?keep
      = filter (\<lambda>f. fst f \<in> manifest) (map (\<lambda>f. (pre @ fst f, snd f)) fnames)"
    using vf walk_inv_rel [OF "1.prems"(3)]
    by (induction fnames) auto
  show ?case
    using cf sub f d a k w by simp
next
  case (2 manifest rootdir)
  then show ?case by simp
next
  case (3 manifest rootdir name d rest)
  from "3.prems" have ad: "all_writable d" and ar: "list_all (\<lambda>e. all_writable (snd e)) rest"
    and vn: "valid_name name" and vd: "valid_names d"
    and vr: "list_all (\<lambda>e. valid_name (fst e) \<and> valid_names (snd e)) rest"
    by simp_all
  from "3.IH"(1) [OF ad vd walk_inv_sub [OF "3.prems"(3) vn]]
  obtain d' out where cw: "clean_walk manifest (os_path_join rootdir name) d = (None, d', out)"
    and f: "rel_files (pre @ name @ ''/'') d'
              = filter (\<lambda>f. fst f \<in> manifest) (rel_files (pre @ name @ ''/'') d)"
    and dd: "all_dirs (pre @ name @ ''/'') d' = all_dirs (pre @ name @ ''/'') d"
    and a: "all_writable d'"
    by blast
  from "3.IH"(2) [OF cw [symmetric] refl refl ar vr "3.prems"(3)]
  obtain rest' out' where cs: "clean_subdirs manifest rootdir rest = (None, rest', out')"
    and f': "concat (map (\<lambda>e. rel_files (pre @ fst e @ ''/'') (snd e)) rest')
            = filter (\<lambda>f. fst f \<in> manifest)
                (concat (map (\<lambda>e. rel_files (pre @ fst e @ ''/'') (snd e)) rest))"
    and d': "concat (map (\<lambda>e. all_dirs (pre @ fst e @ ''/'') (snd e)) rest')
            = concat (map (\<lambda>e. all_dirs (pre @ fst e @ ''/'') (snd e)) rest)"
    and a': "list_all (\<lambda>e. all_writable (snd e)) rest'"
    by blast
  show ?case
    using cw cs f dd a f' d' a' by simp
qed

lemma aborted_at_append:
  "aborted_at M b a \<Longrightarrow> aborted_at M (b @ x) (a @ x)"
  unfolding aborted_at_def by force

lemma aborted_at_prepend:
  assumes "aborted_at M b a"
  shows "aborted_at M (p @ b) (filter (\<lambda>f. fst f \<in> M) p @ a)"
proof -
  from assms obtain treated f rest where
    "b = treated @ f # rest" "fst f \<notin> M" "a = filter (\<lambda>f. fst f \<in> M) treated @ f # rest"
    unfolding aborted_at_def by blast
  then have "p @ b = (p @ treated) @ f # rest \<and> fst f \<notin> M
      \<and> filter (\<lambda>f. fst f \<in> M) p @ a = filter (\<lambda>f. fst f \<in> M) (p @ treated) @ f # rest"
    by simp
  then show ?thesis unfolding aborted_at_def by blast
qed

lemma clean_files_general:
  assumes "list_all (\<lambda>f. valid_name (fst f)) fnames" and "walk_inv r pre"
    and "clean_files M r w fnames = (res, fnames', out)"
  shows "(res = None \<longrightarrow> map (\<lambda>f. (pre @ fst f, snd f)) fnames'
            = filter (\<lambda>f. fst f \<in> M) (map (\<lambda>f. (pre @ fst f, snd f)) fnames))
       \<and> (\<forall>e. res = Some e \<longrightarrow> e = PermissionError
            \<and> aborted_at M (map (\<lambda>f. (pre @ fst f, snd f)) fnames)
                (map (\<lambda>f. (pre @ fst f, snd f)) fnames'))"
  using assms
proof (induction fnames arbitrary: res fnames' out)
  case Nil
  then show ?case by simp
next
  case (Cons a fnames)
  obtain n c where a: "a = (n, c)" by (cases a)
  from Cons.prems a have vn: "valid_name n" and vr: "list_all (\<lambda>f. valid_name (fst f)) fnames"
    by simp_all
  have rel: "drop 13 (os_path_join r n) = pre @ n"
    using walk_inv_rel [OF Cons.prems(2) vn] .
  obtain res1 k1 o1 where rec: "clean_files M r w fnames = (res1, k1, o1)"
    by (cases "clean_files M r w fnames")
  note IH = Cons.IH [OF vr Cons.prems(2) rec]
  show ?case
  proof (cases "pre @ n \<in> M")
    case True
    with Cons.prems(3) a rel rec have eq: "res = res1" "fnames' = (n, c) # k1"
      by (simp_all add: Let_def)
    have "aborted_at M (map (\<lambda>f. (pre @ fst f, snd f)) fnames) (map (\<lambda>f. (pre @ fst f, snd f)) k1)
      \<Longrightarrow> aborted_at M (map (\<lambda>f. (pre @ fst f, snd f)) (a # fnames))
            (map (\<lambda>f. (pre @ fst f, snd f)) fnames')"
      using aborted_at_prepend [of M _ _ "[(pre @ n, c)]"] True a eq by simp
    with IH eq True a show ?thesis by auto
  next
    case False
    show ?thesis
    proof (cases w)
      case True
      with Cons.prems(3) a rel rec False have eq: "res = res1" "fnames' = k1"
        by (simp_all add: Let_def)
      have "aborted_at M (map (\<lambda>f. (pre @ fst f, snd f)) fnames) (map (\<lambda>f. (pre @ fst f, snd f)) k1)
        \<Longrightarrow> aborted_at M (map (\<lambda>f. (pre @ fst f, snd f)) (a # fnames))
              (map (\<lambda>f. (pre @ fst f, snd f)) fnames')"
        using aborted_at_prepend [of M _ _ "[(pre @ n, c)]"] False a eq by simp
      with IH eq False a show ?thesis by auto
    next
      case w: False
      with Cons.prems(3) a rel False have eq: "res = Some PermissionError" "fnames' = a # fnames"
        by (simp_all add: Let_def)
      have "map (\<lambda>f. (pre @ fst f, snd f)) (a # fnames)
              = [] @ (pre @ n, c) # map (\<lambda>f. (pre @ fst f, snd f)) fnames
            \<and> fst (pre @ n, c) \<notin> M
            \<and> map (\<lambda>f. (pre @ fst f, snd f)) fnames'
              = filter (\<lambda>f. fst f \<in> M) [] @ (pre @ n, c) # map (\<lambda>f. (pre @ fst f, snd f)) fnames"
        using a eq False by simp
      then have "aborted_at M (map (\<lambda>f. (pre @ fst f, snd f)) (a # fnames))
            (map (\<lambda>f. (pre @ fst f, snd f)) fnames')"
        unfolding aborted_at_def by blast
      with eq show ?thesis by simp
    qed
  qed
qed

lemma walk_outcome_fail_append:
  "walk_outcome M (Some e) b a \<Longrightarrow> walk_outcome M (Some e) (b @ x) (a @ x)"
  by (simp add: walk_outcome_def aborted_at_append)

lemma walk_outcome_after_ok:
  "walk_outcome M None b1 a1 \<Longrightarrow> walk_outcome M res b2 a2
     \<Longrightarrow> walk_outcome M res (b1 @ b2) (a1 @ a2)"
  by (auto simp: walk_outcome_def aborted_at_prepend)

lemma clean_files_outcome:
  assumes "list_all (\<lambda>f. valid_name (fst f)) fnames" and "walk_inv r pre"
    and "clean_files M r w fnames = (res, fnames', out)"
  shows "walk_outcome M res (map (\<lambda>f. (pre @ fst f, snd f)) fnames)
           (map (\<lambda>f. (pre @ fst f, snd f)) fnames')"
  using clean_files_general [OF assms] by (simp add: walk_outcome_def)

lemma clean_walk_outcome:
  "valid_names t \<Longrightarrow> walk_inv r pre \<Longrightarrow> clean_walk M r t = (res, t', out) \<Longrightarrow>
     walk_outcome M res (rel_files pre t) (rel_files pre t')
     \<and> all_dirs pre t' = all_dirs pre t"
  and clean_subdirs_outcome:
  "list_all (\<lambda>e. valid_name (fst e) \<and> valid_names (snd e)) ds \<Longrightarrow> walk_inv r pre \<Longrightarrow>
   clean_subdirs M r ds = (res, ds', out) \<Longrightarrow>
     walk_outcome M res
       (concat (map (\<lambda>e. rel_files (pre @ fst e @ ''/'') (snd e)) ds))
       (concat (map (\<lambda>e. rel_files (pre @ fst e @ ''/'') (snd e)) ds'))
     \<and> concat (map (\<lambda>e. all_dirs (pre @ fst e @ ''/'') (snd e)) ds')
         = concat (map (\<lambda>e. all_dirs (pre @ fst e @ ''/'') (snd e)) ds)"
proof (induction M r t and M r ds arbitrary: pre res t' out and pre res ds' out
    rule: clean_walk_clean_subdirs.induct)
  case (1 manifest rootdir w fnames dirs)
  from "1.prems" have vf: "list_all (\<lambda>f. valid_name (fst f)) fnames"
    and vd: "list_all (\<lambda>e. valid_name (fst e) \<and> valid_names (snd e)) dirs"
    by simp_all
  obtain r1 fn1 o1 where cf: "clean_files manifest rootdir w fnames = (r1, fn1, o1)"
    by (cases "clean_files manifest rootdir w fnames")
  note fo = clean_files_outcome [OF vf "1.prems"(2) cf]
  show ?case
  proof (cases r1)
    case None
    obtain r2 ds2 o2 where cs: "clean_subdirs manifest rootdir dirs = (r2, ds2, o2)"
      by (cases "clean_subdirs manifest rootdir dirs")
    from "1.IH" [OF cf [symmetric] None refl vd "1.prems"(2) cs]
    have so: "walk_outcome manifest r2
       (concat (map (\<lambda>e. rel_files (pre @ fst e @ ''/'') (snd e)) dirs))
       (concat (map (\<lambda>e. rel_files (pre @ fst e @ ''/'') (snd e)) ds2))"
      and sd: "concat (map (\<lambda>e. all_dirs (pre @ fst e @ ''/'') (snd e)) ds2)
         = concat (map (\<lambda>e. all_dirs (pre @ fst e @ ''/'') (snd e)) dirs)"
      by simp_all
    from "1.prems"(3) cf None cs have eq: "res = r2" "t' = Dir w fn1 ds2" by simp_all
    from walk_outcome_after_ok [OF fo [unfolded None] so] sd eq show ?thesis by simp
  next
    case (Some e)
    from "1.prems"(3) cf Some have eq: "res = Some e" "t' = Dir w fn1 dirs" by simp_all
    from walk_outcome_fail_append [OF fo [unfolded Some]] eq show ?thesis by simp
  qed
next
  case (2 manifest rootdir)
  then show ?case by (auto simp: walk_outcome_def)
next
  case (3 manifest rootdir name d rest)
  from "3.prems" have vn: "valid_name name" and vd: "valid_names d"
    and vr: "list_all (\<lambda>e. valid_name (fst e) \<and> valid_names (snd e)) rest"
    by simp_all
  obtain r1 d1 o1 where cw: "clean_walk manifest (os_path_join rootdir name) d = (r1, d1, o1)"
    by (cases "clean_walk manifest (os_path_join rootdir name) d")
  from "3.IH"(1) [OF vd walk_inv_sub [OF "3.prems"(2) vn] cw]
  have wo: "walk_outcome manifest r1 (rel_files (pre @ name @ ''/'') d)
              (rel_files (pre @ name @ ''/'') d1)"
    and wd: "all_dirs (pre @ name @ ''/'') d1 = all_dirs (pre @ name @ ''/'') d"
    by simp_all
  show ?case
  proof (cases r1)
    case None
    obtain r2 ds2 o2 where cs: "clean_subdirs manifest rootdir rest = (r2, ds2, o2)"
      by (cases "clean_subdirs manifest rootdir rest")
    from "3.IH"(2) [OF cw [symmetric] None refl vr "3.prems"(2) cs]
    have so: "walk_outcome manifest r2
       (concat (map (\<lambda>e. rel_files (pre @ fst e @ ''/'') (snd e)) rest))
       (concat (map (\<lambda>e. rel_files (pre @ fst e @ ''/'') (snd e)) ds2))"
      and sd: "concat (map (\<lambda>e. all_dirs (pre @ fst e @ ''/'') (snd e)) ds2)
         = concat (map (\<lambda>e. all_dirs (pre @ fst e @ ''/'') (snd e)) rest)"
      by simp_all
    from "3.prems"(3) cw None cs have eq: "res = r2" "ds' = (name, d1) # ds2" by simp_all
    from walk_outcome_after_ok [OF wo [unfolded None] so] sd wd eq show ?thesis by simp
  next
    case (Some e)
    from "3.prems"(3) cw Some have eq: "res = Some e" "ds' = (name, d1) # rest" by simp_all
    from walk_outcome_fail_append [OF wo [unfolded Some]] wd eq show ?thesis by simp
  qed
qed

lemma find_prune_files:
  "rel_files pre (snd (find_prune t)) = rel_files pre t"
  and find_prune_list_files:
  "concat (map (\<lambda>e. rel_files (pre @ fst e @ ''/'') (snd e)) (snd (find_prune_list w ds)))
     = concat (map (\<lambda>e. rel_files (pre @ fst e @ ''/'') (snd e)) ds)"
proof (induction t and w ds arbitrary: pre and pre rule: find_prune_find_prune_list.induct)
  case (1 w fnames dirs)
  obtain ok ds' where fl: "find_prune_list w dirs = (ok, ds')"
    by (cases "find_prune_list w dirs")
  from "1.IH" [of pre] fl show ?case by simp
next
  case (2 w)
  then show ?case by simp
next
  case (3 w name d rest)
  obtain ok1 d' where fd: "find_prune d = (ok1, d')" by (cases "find_prune d")
  obtain ok2 rest' where fr: "find_prune_list w rest = (ok2, rest')"
    by (cases "find_prune_list w rest")
  from "3.IH"(1) [of "pre @ name @ ''/''"] fd
  have a: "rel_files (pre @ name @ ''/'') d' = rel_files (pre @ name @ ''/'') d" by simp
  from "3.IH"(2) [OF fd [symmetric], of pre] fr
  have b: "concat (map (\<lambda>e. rel_files (pre @ fst e @ ''/'') (snd e)) rest')
     = concat (map (\<lambda>e. rel_files (pre @ fst e @ ''/'') (snd e)) rest)" by simp
  have c: "is_empty_dir d' \<Longrightarrow> rel_files (pre @ name @ ''/'') d' = []"
    by (cases d') simp
  from a b c fd fr show ?case by auto
qed

lemma find_prune_writable:
  "all_writable t \<Longrightarrow>
     fst (find_prune t) \<and> (is_empty_dir (snd (find_prune t)) \<longleftrightarrow> \<not> has_file t)
     \<and> (has_file t \<longrightarrow> all_dirs pre (snd (find_prune t)) = live_dirs pre t)"
  and find_prune_list_writable:
  "w \<Longrightarrow> list_all (\<lambda>e. all_writable (snd e)) ds \<Longrightarrow>
     fst (find_prune_list w ds)
     \<and> (snd (find_prune_list w ds) = [] \<longleftrightarrow> \<not> list_ex (\<lambda>e. has_file (snd e)) ds)
     \<and> concat (map (\<lambda>e. all_dirs (pre @ fst e @ ''/'') (snd e)) (snd (find_prune_list w ds)))
         = concat (map (\<lambda>e. live_dirs (pre @ fst e @ ''/'') (snd e)) ds)"
proof (induction t and w ds arbitrary: pre and pre rule: find_prune_find_prune_list.induct)
  case (1 w fnames dirs)
  from "1.prems" have w: w and aw: "list_all (\<lambda>e. all_writable (snd e)) dirs" by simp_all
  obtain ok ds' where fl: "find_prune_list w dirs = (ok, ds')"
    by (cases "find_prune_list w dirs")
  from "1.IH" [OF w aw, of pre] fl
  have ok: ok and e: "ds' = [] \<longleftrightarrow> \<not> list_ex (\<lambda>e. has_file (snd e)) dirs"
    and d: "concat (map (\<lambda>e. all_dirs (pre @ fst e @ ''/'') (snd e)) ds')
         = concat (map (\<lambda>e. live_dirs (pre @ fst e @ ''/'') (snd e)) dirs)"
    by simp_all
  from fl ok e d show ?case by auto
next
  case (2 w)
  then show ?case by simp
next
  case (3 w name d rest)
  from "3.prems" have ad: "all_writable d" and ar: "list_all (\<lambda>e. all_writable (snd e)) rest"
    by simp_all
  obtain ok1 d' where fd: "find_prune d = (ok1, d')" by (cases "find_prune d")
  obtain ok2 rest' where fr: "find_prune_list w rest = (ok2, rest')"
    by (cases "find_prune_list w rest")
  from "3.IH"(1) [OF ad, of "pre @ name @ ''/''"] fd
  have ok1: ok1 and e1: "is_empty_dir d' \<longleftrightarrow> \<not> has_file d"
    and d1: "has_file d \<longrightarrow> all_dirs (pre @ name @ ''/'') d' = live_dirs (pre @ name @ ''/'') d"
    by simp_all
  from "3.IH"(2) [OF fd [symmetric] "3.prems"(1) ar, of pre] fr
  have ok2: ok2 and e2: "rest' = [] \<longleftrightarrow> \<not> list_ex (\<lambda>e. has_file (snd e)) rest"
    and d2: "concat (map (\<lambda>e. all_dirs (pre @ fst e @ ''/'') (snd e)) rest')
         = concat (map (\<lambda>e. live_dirs (pre @ fst e @ ''/'') (snd e)) rest)"
    by simp_all
  have l: "\<not> has_file d \<Longrightarrow> live_dirs (pre @ name @ ''/'') d = []"
    by (cases d) simp
  show ?case
  proof (cases "has_file d")
    case True
    with fd fr ok1 ok2 e1 e2 d1 d2 "3.prems"(1) show ?thesis by simp
  next
    case False
    with fd fr ok1 ok2 e1 e2 d2 l "3.prems"(1) show ?thesis by simp
  qed
qed

lemma clean_files_blocked:
  assumes "list_all (\<lambda>f. valid_name (fst f)) fnames" and "walk_inv r pre"
  shows "fst (clean_files M r w fnames) \<noteq> None
           \<longleftrightarrow> \<not> w \<and> list_ex (\<lambda>f. pre @ fst f \<notin> M) fnames"
  using assms
proof (induction fnames)
  case Nil
  then show ?case by simp
next
  case (Cons a fnames)
  obtain n c where a: "a = (n, c)" by (cases a)
  from Cons.prems a have vn: "valid_name n" and vr: "list_all (\<lambda>f. valid_name (fst f)) fnames"
    by simp_all
  have rel: "drop 13 (os_path_join r n) = pre @ n"
    using walk_inv_rel [OF Cons.prems(2) vn] .
  from Cons.IH [OF vr Cons.prems(2)] a rel show ?case
    by (auto simp: Let_def split: prod.splits)
qed

lemma clean_walk_blocked:
  "valid_names t \<Longrightarrow> walk_inv r pre \<Longrightarrow>
     fst (clean_walk M r t) \<noteq> None \<longleftrightarrow> blocked M pre t"
  and clean_subdirs_blocked:
  "list_all (\<lambda>e. valid_name (fst e) \<and> valid_names (snd e)) ds \<Longrightarrow> walk_inv r pre \<Longrightarrow>
     fst (clean_subdirs M r ds) \<noteq> None
       \<longleftrightarrow> list_ex (\<lambda>e. blocked M (pre @ fst e @ ''/'') (snd e)) ds"
proof (induction M r t and M r ds arbitrary: pre and pre
    rule: clean_walk_clean_subdirs.induct)
  case (1 manifest rootdir w fnames dirs)
  from "1.prems" have vf: "list_all (\<lambda>f. valid_name (fst f)) fnames"
    and vd: "list_all (\<lambda>e. valid_name (fst e) \<and> valid_names (snd e)) dirs"
    by simp_all
  obtain r1 fn1 o1 where cf: "clean_files manifest rootdir w fnames = (r1, fn1, o1)"
    by (cases "clean_files manifest rootdir w fnames")
  from clean_files_blocked [OF vf "1.prems"(2), of manifest w] cf
  have fb: "r1 \<noteq> None \<longleftrightarrow> \<not> w \<and> list_ex (\<lambda>f. pre @ fst f \<notin> manifest) fnames" by simp
  show ?case
  proof (cases r1)
    case None
    obtain r2 ds2 o2 where cs: "clean_subdirs manifest rootdir dirs = (r2, ds2, o2)"
      by (cases "clean_subdirs manifest rootdir dirs")
    from "1.IH" [OF cf [symmetric] None refl vd "1.prems"(2)] cs
    have "r2 \<noteq> None \<longleftrightarrow> list_ex (\<lambda>e. blocked manifest (pre @ fst e @ ''/'') (snd e)) dirs"
      by simp
    with cf None cs fb show ?thesis by auto
  next
    case (Some e)
    with cf fb show ?thesis by simp
  qed
next
  case (2 manifest rootdir)
  then show ?case by simp
next
  case (3 manifest rootdir name d rest)
  from "3.prems" have vn: "valid_name name" and vd: "valid_names d"
    and vr: "list_all (\<lambda>e. valid_name (fst e) \<and> valid_names (snd e)) rest"
    by simp_all
  obtain r1 d1 o1 where cw: "clean_walk manifest (os_path_join rootdir name) d = (r1, d1, o1)"
    by (cases "clean_walk manifest (os_path_join rootdir name) d")
  from "3.IH"(1) [OF vd walk_inv_sub [OF "3.prems"(2) vn]] cw
  have wb: "r1 \<noteq> None \<longleftrightarrow> blocked manifest (pre @ name @ ''/'') d" by simp
  show ?case
  proof (cases r1)
    case None
    obtain r2 ds2 o2 where cs: "clean_subdirs manifest rootdir rest = (r2, ds2, o2)"
      by (cases "clean_subdirs manifest rootdir rest")
    from "3.IH"(2) [OF cw [symmetric] None refl vr "3.prems"(2)] cs
    have "r2 \<noteq> None \<longleftrightarrow> list_ex (\<lambda>e. blocked manifest (pre @ fst e @ ''/'') (snd e)) rest"
      by simp
    with cw None cs wb show ?thesis by auto
  next
    case (Some e)
    with cw wb show ?thesis by simp
  qed
qed

lemma is_empty_dir_files: "is_empty_dir t \<Longrightarrow> rel_files pre t = []"
  by (cases t) simp

lemma no_file_rel_files: "\<not> has_file t \<Longrightarrow> rel_files pre t = []"
  by (induction pre t rule: rel_files.induct) (auto simp: list_ex_iff)

lemma no_file_live_dirs: "\<not> has_file t \<Longrightarrow> live_dirs pre t = []"
  by (cases t) simp




text \<open>
  Claim C5, as stated, fails: \<^verbatim>\<open>a/x.bin\<close> cannot be removed, the exception ends the
  function, and the orphan \<^verbatim>\<open>b/y.bin\<close>, which could be removed, is still there and was
  never reported.
\<close>

theorem reconcile_delete_failure_counterexample:
  "clean_orphaned_assets (Content (JList [])) (Content (JList []))
       (Some (Dir True []
          [(''a'', Dir False [(''x.bin'', ''1'')] []),
           (''b'', Dir True [(''y.bin'', ''2'')] [])]))
     = (Some PermissionError,
        Some (Dir True []
          [(''a'', Dir False [(''x.bin'', ''1'')] []),
           (''b'', Dir True [(''y.bin'', ''2'')] [])]),
        [''Removing orphaned asset file: build/assets/a/x.bin''])"
  by (simp add: clean_orphaned_assets_def manifest_set_def load_json_def
      os_path_join_def startswith_def)

lemma clean_orphaned_assets_loaded:
  assumes "manifest_set public = Inr m1" and "manifest_set private = Inr m2"
    and "clean_walk (set m1 \<union> set m2) ''build/assets'' t = (r, t1, out)"
  shows "clean_orphaned_assets public private (Some t) =
     (case r of
        Some e \<Rightarrow> (Some e, Some t1, out)
      | None \<Rightarrow>
          (if fst (find_prune t1) then None else Some CalledProcessError,
           if is_empty_dir (snd (find_prune t1)) then None else Some (snd (find_prune t1)),
           out))"
  using assms
  by (simp add: clean_orphaned_assets_def find_empty_dirs_delete_def
      split: option.splits prod.splits)

lemma pruned_files:
  "files_of (if is_empty_dir (snd (find_prune t1)) then None else Some (snd (find_prune t1)))
     = rel_files [] t1"
  using find_prune_files(1) [of "[]" t1] is_empty_dir_files [of "snd (find_prune t1)" "[]"]
  by (simp add: files_of_def)

lemma pruned_dirs:
  assumes "all_writable t1"
  shows "dirs_of (if is_empty_dir (snd (find_prune t1)) then None else Some (snd (find_prune t1)))
     = live_dirs [] t1"
  using find_prune_writable(1) [OF assms, of "[]"] no_file_live_dirs [of t1 "[]"]
  by (auto simp: dirs_of_def)

text \<open>
  Claim C1. With both manifests loaded and a tree of proper file names, the function
  returns normally whenever every directory can be written to, and whenever it returns
  normally the files left are exactly the files that were there and whose relative
  path is in the union of the two manifests, each with the content it had: every
  orphan is gone and no declared file was touched.
\<close>

theorem reconcile_removes_exactly_orphans:
  assumes "manifest_set public = Inr m1" and "manifest_set private = Inr m2"
    and "valid_names t"
  shows "(all_writable t \<longrightarrow> fst (clean_orphaned_assets public private (Some t)) = None)
       \<and> (fst (clean_orphaned_assets public private (Some t)) = None \<longrightarrow>
            files_of (fst (snd (clean_orphaned_assets public private (Some t))))
              = filter (\<lambda>f. fst f \<in> set m1 \<union> set m2) (files_of (Some t)))"
proof -
  let ?M = "set m1 \<union> set m2"
  obtain r t1 out where cw: "clean_walk ?M ''build/assets'' t = (r, t1, out)"
    by (cases "clean_walk ?M ''build/assets'' t")
  note res = clean_orphaned_assets_loaded [OF assms(1,2) cw]
  from clean_walk_outcome [OF assms(3) walk_inv_top cw]
  have wo: "walk_outcome ?M r (rel_files [] t) (rel_files [] t1)" by simp
  have a: "all_writable t \<longrightarrow> fst (clean_orphaned_assets public private (Some t)) = None"
  proof
    assume aw: "all_writable t"
    from clean_walk_writable [OF aw assms(3) walk_inv_top, of ?M] cw
    have "r = None" and "all_writable t1" by auto
    with find_prune_writable(1) [of t1 "[]"] res show
      "fst (clean_orphaned_assets public private (Some t)) = None" by simp
  qed
  have b: "fst (clean_orphaned_assets public private (Some t)) = None \<longrightarrow>
            files_of (fst (snd (clean_orphaned_assets public private (Some t))))
              = filter (\<lambda>f. fst f \<in> ?M) (files_of (Some t))"
  proof
    assume ok: "fst (clean_orphaned_assets public private (Some t)) = None"
    with res have r: "r = None" by (cases r) simp_all
    with wo have "rel_files [] t1 = filter (\<lambda>f. fst f \<in> ?M) (rel_files [] t)"
      by (simp add: walk_outcome_def)
    with res r pruned_files [of t1] show
      "files_of (fst (snd (clean_orphaned_assets public private (Some t))))
              = filter (\<lambda>f. fst f \<in> ?M) (files_of (Some t))"
      by (simp add: files_of_def)
  qed
  from a b show ?thesis by blast
qed

text \<open>
  Claim C6. With both manifests loaded and every directory writable, the walk removes
  the orphans and no directory; the pruning that follows then leaves exactly the
  directories that have a file somewhere below them after the deletions, and leaves
  the files alone. A directory emptied by the deletions, or holding only directories
  that end up empty, is gone, whatever its depth.
\<close>

theorem reconcile_prunes_empty_dirs:
  assumes "manifest_set public = Inr m1" and "manifest_set private = Inr m2"
    and "valid_names t" and "all_writable t"
  shows "fst (clean_orphaned_assets public private (Some t)) = None
       \<and> fst (clean_walk (set m1 \<union> set m2) ''build/assets'' t) = None
       \<and> all_dirs [] (fst (snd (clean_walk (set m1 \<union> set m2) ''build/assets'' t)))
           = all_dirs [] t
       \<and> rel_files [] (fst (snd (clean_walk (set m1 \<union> set m2) ''build/assets'' t)))
           = filter (\<lambda>f. fst f \<in> set m1 \<union> set m2) (rel_files [] t)
       \<and> dirs_of (fst (snd (clean_orphaned_assets public private (Some t))))
           = live_dirs [] (fst (snd (clean_walk (set m1 \<union> set m2) ''build/assets'' t)))
       \<and> files_of (fst (snd (clean_orphaned_assets public private (Some t))))
           = rel_files [] (fst (snd (clean_walk (set m1 \<union> set m2) ''build/assets'' t)))"
proof -
  let ?M = "set m1 \<union> set m2"
  from clean_walk_writable [OF assms(4,3) walk_inv_top, of ?M]
  obtain t1 out where cw: "clean_walk ?M ''build/assets'' t = (None, t1, out)"
    and f: "rel_files [] t1 = filter (\<lambda>f. fst f \<in> ?M) (rel_files [] t)"
    and d: "all_dirs [] t1 = all_dirs [] t" and aw: "all_writable t1"
    by blast
  note res = clean_orphaned_assets_loaded [OF assms(1,2) cw]
  from find_prune_writable(1) [OF aw, of "[]"] have ok: "fst (find_prune t1)" by simp
  from res ok cw f d pruned_files [of t1] pruned_dirs [OF aw] show ?thesis by simp
qed

lemma cut_short_aborted: "cut_short M b a out \<Longrightarrow> aborted_at M b a"
  unfolding cut_short_def aborted_at_def by blast

lemma cut_short_append:
  "cut_short M b a out \<Longrightarrow> cut_short M (b @ x) (a @ x) out"
  unfolding cut_short_def by force

lemma cut_short_prepend:
  assumes "cut_short M b a out"
  shows "cut_short M (p @ b) (filter (\<lambda>f. fst f \<in> M) p @ a)
           (map report (filter (\<lambda>f. fst f \<notin> M) p) @ out)"
proof -
  from assms obtain treated f rest where
    "b = treated @ f # rest" "fst f \<notin> M" "a = filter (\<lambda>f. fst f \<in> M) treated @ f # rest"
    "out = map report (filter (\<lambda>f. fst f \<notin> M) treated) @ [report f]"
    unfolding cut_short_def by blast
  then have "p @ b = (p @ treated) @ f # rest \<and> fst f \<notin> M
      \<and> filter (\<lambda>f. fst f \<in> M) p @ a = filter (\<lambda>f. fst f \<in> M) (p @ treated) @ f # rest
      \<and> map report (filter (\<lambda>f. fst f \<notin> M) p) @ out
          = map report (filter (\<lambda>f. fst f \<notin> M) (p @ treated)) @ [report f]"
    by simp
  then show ?thesis unfolding cut_short_def by blast
qed

lemma walk_report_fail_append:
  "walk_report M (Some e) b a out \<Longrightarrow> walk_report M (Some e) (b @ x) (a @ x) out"
  by (simp add: walk_report_def cut_short_append)

lemma walk_report_after_ok:
  "walk_report M None b1 a1 o1 \<Longrightarrow> a1 = filter (\<lambda>f. fst f \<in> M) b1
     \<Longrightarrow> walk_report M res b2 a2 o2
     \<Longrightarrow> walk_report M res (b1 @ b2) (a1 @ a2) (o1 @ o2)"
  by (auto simp: walk_report_def cut_short_prepend)

lemma walk_inv_path:
  assumes "walk_inv r pre" and "valid_name n"
  shows "os_path_join r n = ''build/assets/'' @ pre @ n"
proof -
  from assms have "os_path_join r n = (r @ ''/'') @ n"
    by (simp add: walk_inv_def join_valid)
  also from assms have "\<dots> = ''build/assets/'' @ pre @ n"
    by (simp add: walk_inv_def)
  finally show ?thesis .
qed

lemma clean_files_report:
  assumes "list_all (\<lambda>f. valid_name (fst f)) fnames" and "walk_inv r pre"
    and "clean_files M r w fnames = (res, fnames', out)"
  shows "walk_report M res (map (\<lambda>f. (pre @ fst f, snd f)) fnames)
           (map (\<lambda>f. (pre @ fst f, snd f)) fnames') out"
  using assms
proof (induction fnames arbitrary: res fnames' out)
  case Nil
  then show ?case by (simp add: walk_report_def)
next
  case (Cons a fnames)
  obtain n c where a: "a = (n, c)" by (cases a)
  from Cons.prems a have vn: "valid_name n" and vr: "list_all (\<lambda>f. valid_name (fst f)) fnames"
    by simp_all
  have rel: "drop 13 (os_path_join r n) = pre @ n"
    using walk_inv_rel [OF Cons.prems(2) vn] .
  have path: "os_path_join r n = ''build/assets/'' @ pre @ n"
    using walk_inv_path [OF Cons.prems(2) vn] .
  obtain res1 k1 o1 where rec: "clean_files M r w fnames = (res1, k1, o1)"
    by (cases "clean_files M r w fnames")
  note IH = Cons.IH [OF vr Cons.prems(2) rec]
  show ?case
  proof (cases "pre @ n \<in> M")
    case True
    with Cons.prems(3) a rel rec have eq: "res = res1" "fnames' = (n, c) # k1" "out = o1"
      by (simp_all add: Let_def)
    have "cut_short M (map (\<lambda>f. (pre @ fst f, snd f)) fnames)
              (map (\<lambda>f. (pre @ fst f, snd f)) k1) o1
      \<Longrightarrow> cut_short M (map (\<lambda>f. (pre @ fst f, snd f)) (a # fnames))
            (map (\<lambda>f. (pre @ fst f, snd f)) fnames') out"
      using cut_short_prepend [of M _ _ _ "[(pre @ n, c)]"] True a eq by simp
    with IH eq True a show ?thesis by (auto simp: walk_report_def)
  next
    case False
    show ?thesis
    proof (cases w)
      case True
      with Cons.prems(3) a rel rec False path
      have eq: "res = res1" "fnames' = k1" "out = report (pre @ n, c) # o1"
        by (simp_all add: Let_def report_def)
      have "cut_short M (map (\<lambda>f. (pre @ fst f, snd f)) fnames)
                (map (\<lambda>f. (pre @ fst f, snd f)) k1) o1
        \<Longrightarrow> cut_short M (map (\<lambda>f. (pre @ fst f, snd f)) (a # fnames))
              (map (\<lambda>f. (pre @ fst f, snd f)) fnames') out"
        using cut_short_prepend [of M _ _ _ "[(pre @ n, c)]"] False a eq by simp
      with IH eq False a show ?thesis by (auto simp: walk_report_def)
    next
      case w: False
      with Cons.prems(3) a rel False path
      have eq: "res = Some PermissionError" "fnames' = a # fnames"
        "out = [report (pre @ n, c)]"
        by (simp_all add: Let_def report_def)
      have "map (\<lambda>f. (pre @ fst f, snd f)) (a # fnames)
              = [] @ (pre @ n, c) # map (\<lambda>f. (pre @ fst f, snd f)) fnames
            \<and> fst (pre @ n, c) \<notin> M
            \<and> map (\<lambda>f. (pre @ fst f, snd f)) fnames'
              = filter (\<lambda>f. fst f \<in> M) [] @ (pre @ n, c) # map (\<lambda>f. (pre @ fst f, snd f)) fnames
            \<and> out = map report (filter (\<lambda>f. fst f \<notin> M) []) @ [report (pre @ n, c)]"
        using a eq False by simp
      then have "cut_short M (map (\<lambda>f. (pre @ fst f, snd f)) (a # fnames))
            (map (\<lambda>f. (pre @ fst f, snd f)) fnames') out"
        unfolding cut_short_def by blast
      with eq show ?thesis by (simp add: walk_report_def)
    qed
  qed
qed


lemma clean_walk_report:
  "valid_names t \<Longrightarrow> walk_inv r pre \<Longrightarrow> clean_walk M r t = (res, t', out) \<Longrightarrow>
     walk_report M res (rel_files pre t) (rel_files pre t') out"
  and clean_subdirs_report:
  "list_all (\<lambda>e. valid_name (fst e) \<and> valid_names (snd e)) ds \<Longrightarrow> walk_inv r pre \<Longrightarrow>
   clean_subdirs M r ds = (res, ds', out) \<Longrightarrow>
     walk_report M res
       (concat (map (\<lambda>e. rel_files (pre @ fst e @ ''/'') (snd e)) ds))
       (concat (map (\<lambda>e. rel_files (pre @ fst e @ ''/'') (snd e)) ds')) out"
proof (induction M r t and M r ds arbitrary: pre res t' out and pre res ds' out
    rule: clean_walk_clean_subdirs.induct)
  case (1 manifest rootdir w fnames dirs)
  from "1.prems" have vf: "list_all (\<lambda>f. valid_name (fst f)) fnames"
    and vd: "list_all (\<lambda>e. valid_name (fst e) \<and> valid_names (snd e)) dirs"
    by simp_all
  obtain r1 fn1 o1 where cf: "clean_files manifest rootdir w fnames = (r1, fn1, o1)"
    by (cases "clean_files manifest rootdir w fnames")
  note fr = clean_files_report [OF vf "1.prems"(2) cf]
  note fo = clean_files_outcome [OF vf "1.prems"(2) cf]
  show ?case
  proof (cases r1)
    case None
    obtain r2 ds2 o2 where cs: "clean_subdirs manifest rootdir dirs = (r2, ds2, o2)"
      by (cases "clean_subdirs manifest rootdir dirs")
    from "1.IH" [OF cf [symmetric] None refl vd "1.prems"(2) cs]
    have sr: "walk_report manifest r2
       (concat (map (\<lambda>e. rel_files (pre @ fst e @ ''/'') (snd e)) dirs))
       (concat (map (\<lambda>e. rel_files (pre @ fst e @ ''/'') (snd e)) ds2)) o2" .
    from fo None have k: "map (\<lambda>f. (pre @ fst f, snd f)) fn1
        = filter (\<lambda>f. fst f \<in> manifest) (map (\<lambda>f. (pre @ fst f, snd f)) fnames)"
      by (simp add: walk_outcome_def)
    from "1.prems"(3) cf None cs have eq: "res = r2" "t' = Dir w fn1 ds2" "out = o1 @ o2"
      by simp_all
    from walk_report_after_ok [OF fr [unfolded None] k sr] eq show ?thesis by simp
  next
    case (Some e)
    from "1.prems"(3) cf Some have eq: "res = Some e" "t' = Dir w fn1 dirs" "out = o1"
      by simp_all
    from walk_report_fail_append [OF fr [unfolded Some]] eq show ?thesis by simp
  qed
next
  case (2 manifest rootdir)
  then show ?case by (auto simp: walk_report_def)
next
  case (3 manifest rootdir name d rest)
  from "3.prems" have vn: "valid_name name" and vd: "valid_names d"
    and vr: "list_all (\<lambda>e. valid_name (fst e) \<and> valid_names (snd e)) rest"
    by simp_all
  obtain r1 d1 o1 where cw: "clean_walk manifest (os_path_join rootdir name) d = (r1, d1, o1)"
    by (cases "clean_walk manifest (os_path_join rootdir name) d")
  note inv = walk_inv_sub [OF "3.prems"(2) vn]
  from "3.IH"(1) [OF vd inv cw]
  have wr: "walk_report manifest r1 (rel_files (pre @ name @ ''/'') d)
              (rel_files (pre @ name @ ''/'') d1) o1" .
  from clean_walk_outcome [OF vd inv cw]
  have wo: "walk_outcome manifest r1 (rel_files (pre @ name @ ''/'') d)
              (rel_files (pre @ name @ ''/'') d1)" by simp
  show ?case
  proof (cases r1)
    case None
    obtain r2 ds2 o2 where cs: "clean_subdirs manifest rootdir rest = (r2, ds2, o2)"
      by (cases "clean_subdirs manifest rootdir rest")
    from "3.IH"(2) [OF cw [symmetric] None refl vr "3.prems"(2) cs]
    have sr: "walk_report manifest r2
       (concat (map (\<lambda>e. rel_files (pre @ fst e @ ''/'') (snd e)) rest))
       (concat (map (\<lambda>e. rel_files (pre @ fst e @ ''/'') (snd e)) ds2)) o2" .
    from wo None have k: "rel_files (pre @ name @ ''/'') d1
        = filter (\<lambda>f. fst f \<in> manifest) (rel_files (pre @ name @ ''/'') d)"
      by (simp add: walk_outcome_def)
    from "3.prems"(3) cw None cs
    have eq: "res = r2" "ds' = (name, d1) # ds2" "out = o1 @ o2" by simp_all
    from walk_report_after_ok [OF wr [unfolded None] k sr] eq show ?thesis by simp
  next
    case (Some e)
    from "3.prems"(3) cw Some have eq: "res = Some e" "ds' = (name, d1) # rest" "out = o1"
      by simp_all
    from walk_report_fail_append [OF wr [unfolded Some]] eq show ?thesis by simp
  qed
qed

text \<open>
  Claim C5, amended. With both manifests loaded, the function raises
  \<^verbatim>\<open>PermissionError\<close> exactly when some orphan lies in a directory that cannot be
  written to. The walk is then cut short at the first such orphan: the orphans before
  it are gone and were reported, it was reported and is still there, every file after
  it in walk order is still there and was not reported, and no directory has been
  pruned.
\<close>

theorem reconcile_delete_failure_aborts:
  assumes "manifest_set public = Inr m1" and "manifest_set private = Inr m2"
    and "valid_names t"
  shows "(fst (clean_orphaned_assets public private (Some t)) = Some PermissionError
            \<longleftrightarrow> blocked (set m1 \<union> set m2) [] t)
       \<and> (blocked (set m1 \<union> set m2) [] t \<longrightarrow>
            aborted_at (set m1 \<union> set m2) (files_of (Some t))
              (files_of (fst (snd (clean_orphaned_assets public private (Some t)))))
            \<and> cut_short (set m1 \<union> set m2) (files_of (Some t))
                (files_of (fst (snd (clean_orphaned_assets public private (Some t)))))
                (snd (snd (clean_orphaned_assets public private (Some t))))
            \<and> dirs_of (fst (snd (clean_orphaned_assets public private (Some t))))
                = dirs_of (Some t))"
proof -
  let ?M = "set m1 \<union> set m2"
  obtain r t1 out where cw: "clean_walk ?M ''build/assets'' t = (r, t1, out)"
    by (cases "clean_walk ?M ''build/assets'' t")
  note res = clean_orphaned_assets_loaded [OF assms(1,2) cw]
  from clean_walk_outcome [OF assms(3) walk_inv_top cw]
  have d: "all_dirs [] t1 = all_dirs [] t" by simp
  from clean_walk_report [OF assms(3) walk_inv_top cw]
  have wr: "walk_report ?M r (rel_files [] t) (rel_files [] t1) out" .
  from clean_walk_blocked [OF assms(3) walk_inv_top, of ?M] cw
  have bl: "r \<noteq> None \<longleftrightarrow> blocked ?M [] t" by simp
  from clean_walk_outcome [OF assms(3) walk_inv_top cw]
  have wo: "walk_outcome ?M r (rel_files [] t) (rel_files [] t1)" by simp
  show ?thesis
  proof (cases r)
    case None
    with res bl show ?thesis by simp
  next
    case (Some e)
    with wo have e: "e = PermissionError" by (simp add: walk_outcome_def)
    from wr Some have cs: "cut_short ?M (rel_files [] t) (rel_files [] t1) out"
      by (simp add: walk_report_def)
    from cs have ab: "aborted_at ?M (rel_files [] t) (rel_files [] t1)"
      by (rule cut_short_aborted)
    from res Some e bl d cs ab show ?thesis by (simp add: files_of_def dirs_of_def)
  qed
qed

theorem reconcile_removes_exactly_orphans_witness:
  "fst (clean_orphaned_assets (Content (JList [JStr ''a/x.bin''])) (Content (JList [JStr ''a/y.bin''])) (Some (Dir True [] [(''a'', Dir True [(''x.bin'', ''1''), (''z.bin'', ''2'')] [(''empty'', Dir True [] [])])]))) = None
   \<and> files_of (fst (snd (clean_orphaned_assets (Content (JList [JStr ''a/x.bin''])) (Content (JList [JStr ''a/y.bin''])) (Some (Dir True [] [(''a'', Dir True [(''x.bin'', ''1''), (''z.bin'', ''2'')] [(''empty'', Dir True [] [])])])))))
       = [(''a/x.bin'', ''1'')]"
proof -
  have a: "manifest_set (Content (JList [JStr ''a/x.bin''])) = Inr [''a/x.bin'']"
    by (simp add: manifest_set_def load_json_def)
  have b: "manifest_set (Content (JList [JStr ''a/y.bin''])) = Inr [''a/y.bin'']"
    by (simp add: manifest_set_def load_json_def)
  have c: "valid_names (Dir True [] [(''a'', Dir True [(''x.bin'', ''1''), (''z.bin'', ''2'')] [(''empty'', Dir True [] [])])])"
    by (simp add: valid_name_def)
  have d: "all_writable (Dir True [] [(''a'', Dir True [(''x.bin'', ''1''), (''z.bin'', ''2'')] [(''empty'', Dir True [] [])])])"
    by simp
  have e: "filter (\<lambda>f. fst f \<in> set [''a/x.bin''] \<union> set [''a/y.bin'']) (files_of (Some (Dir True [] [(''a'', Dir True [(''x.bin'', ''1''), (''z.bin'', ''2'')] [(''empty'', Dir True [] [])])])))
             = [(''a/x.bin'', ''1'')]"
    by (simp add: files_of_def)
  from reconcile_removes_exactly_orphans [OF a b c] d e show ?thesis
    by simp
qed

theorem reconcile_prunes_empty_dirs_witness:
  "fst (clean_orphaned_assets (Content (JList [JStr ''a/x.bin''])) (Content (JList [JStr ''a/y.bin''])) (Some (Dir True [] [(''a'', Dir True [(''x.bin'', ''1''), (''z.bin'', ''2'')] [(''empty'', Dir True [] [])])]))) = None
   \<and> dirs_of (Some (Dir True [] [(''a'', Dir True [(''x.bin'', ''1''), (''z.bin'', ''2'')] [(''empty'', Dir True [] [])])])) = [[], ''a/'', ''a/empty/'']
   \<and> dirs_of (fst (snd (clean_orphaned_assets (Content (JList [JStr ''a/x.bin''])) (Content (JList [JStr ''a/y.bin''])) (Some (Dir True [] [(''a'', Dir True [(''x.bin'', ''1''), (''z.bin'', ''2'')] [(''empty'', Dir True [] [])])]))))) = [[], ''a/'']"
proof -
  have a: "manifest_set (Content (JList [JStr ''a/x.bin''])) = Inr [''a/x.bin'']"
    by (simp add: manifest_set_def load_json_def)
  have b: "manifest_set (Content (JList [JStr ''a/y.bin''])) = Inr [''a/y.bin'']"
    by (simp add: manifest_set_def load_json_def)
  have c: "valid_names (Dir True [] [(''a'', Dir True [(''x.bin'', ''1''), (''z.bin'', ''2'')] [(''empty'', Dir True [] [])])])"
    by (simp add: valid_name_def)
  have d: "all_writable (Dir True [] [(''a'', Dir True [(''x.bin'', ''1''), (''z.bin'', ''2'')] [(''empty'', Dir True [] [])])])"
    by simp
  have e: "live_dirs [] (fst (snd (clean_walk (set [''a/x.bin''] \<union> set [''a/y.bin''])
              ''build/assets'' (Dir True [] [(''a'', Dir True [(''x.bin'', ''1''), (''z.bin'', ''2'')] [(''empty'', Dir True [] [])])])))) = [[], ''a/'']"
    by (simp add: os_path_join_def startswith_def)
  have f: "dirs_of (Some (Dir True [] [(''a'', Dir True [(''x.bin'', ''1''), (''z.bin'', ''2'')] [(''empty'', Dir True [] [])])])) = [[], ''a/'', ''a/empty/'']"
    by (simp add: dirs_of_def)
  from reconcile_prunes_empty_dirs [OF a b c d] e f show ?thesis
    by simp
qed

theorem reconcile_delete_failure_aborts_witness:
  "blocked (set [] \<union> set []) [] (Dir True [(''w.bin'', ''0'')] [(''a'', Dir False [(''x.bin'', ''1''), (''x2.bin'', ''3'')] []), (''b'', Dir True [(''y.bin'', ''2'')] [])])
   \<and> clean_orphaned_assets (Content (JList [])) (Content (JList [])) (Some (Dir True [(''w.bin'', ''0'')] [(''a'', Dir False [(''x.bin'', ''1''), (''x2.bin'', ''3'')] []), (''b'', Dir True [(''y.bin'', ''2'')] [])]))
       = (Some PermissionError,
          Some (Dir True []
            [(''a'', Dir False [(''x.bin'', ''1''), (''x2.bin'', ''3'')] []),
             (''b'', Dir True [(''y.bin'', ''2'')] [])]),
          [''Removing orphaned asset file: build/assets/w.bin'',
           ''Removing orphaned asset file: build/assets/a/x.bin''])
   \<and> cut_short (set [] \<union> set []) (files_of (Some (Dir True [(''w.bin'', ''0'')] [(''a'', Dir False [(''x.bin'', ''1''), (''x2.bin'', ''3'')] []), (''b'', Dir True [(''y.bin'', ''2'')] [])])))
        (files_of (fst (snd (clean_orphaned_assets (Content (JList [])) (Content (JList [])) (Some (Dir True [(''w.bin'', ''0'')] [(''a'', Dir False [(''x.bin'', ''1''), (''x2.bin'', ''3'')] []), (''b'', Dir True [(''y.bin'', ''2'')] [])]))))))
        (snd (snd (clean_orphaned_assets (Content (JList [])) (Content (JList [])) (Some (Dir True [(''w.bin'', ''0'')] [(''a'', Dir False [(''x.bin'', ''1''), (''x2.bin'', ''3'')] []), (''b'', Dir True [(''y.bin'', ''2'')] [])])))))
   \<and> dirs_of (fst (snd (clean_orphaned_assets (Content (JList [])) (Content (JList [])) (Some (Dir True [(''w.bin'', ''0'')] [(''a'', Dir False [(''x.bin'', ''1''), (''x2.bin'', ''3'')] []), (''b'', Dir True [(''y.bin'', ''2'')] [])]))))) = dirs_of (Some (Dir True [(''w.bin'', ''0'')] [(''a'', Dir False [(''x.bin'', ''1''), (''x2.bin'', ''3'')] []), (''b'', Dir True [(''y.bin'', ''2'')] [])]))"
proof -
  have a: "manifest_set (Content (JList [])) = Inr []"
    by (simp add: manifest_set_def load_json_def)
  have c: "valid_names (Dir True [(''w.bin'', ''0'')] [(''a'', Dir False [(''x.bin'', ''1''), (''x2.bin'', ''3'')] []), (''b'', Dir True [(''y.bin'', ''2'')] [])])"
    by (simp add: valid_name_def)
  have d: "blocked (set [] \<union> set []) [] (Dir True [(''w.bin'', ''0'')] [(''a'', Dir False [(''x.bin'', ''1''), (''x2.bin'', ''3'')] []), (''b'', Dir True [(''y.bin'', ''2'')] [])])"
    by simp
  have e: "clean_orphaned_assets (Content (JList [])) (Content (JList [])) (Some (Dir True [(''w.bin'', ''0'')] [(''a'', Dir False [(''x.bin'', ''1''), (''x2.bin'', ''3'')] []), (''b'', Dir True [(''y.bin'', ''2'')] [])]))
       = (Some PermissionError,
          Some (Dir True []
            [(''a'', Dir False [(''x.bin'', ''1''), (''x2.bin'', ''3'')] []),
             (''b'', Dir True [(''y.bin'', ''2'')] [])]),
          [''Removing orphaned asset file: build/assets/w.bin'',
           ''Removing orphaned asset file: build/assets/a/x.bin''])"
    by (simp add: clean_orphaned_assets_def manifest_set_def load_json_def
        os_path_join_def startswith_def)
  from reconcile_delete_failure_aborts [OF a a c] d e show ?thesis
    by blast
qed

end
